theory Spec2Isabelle
  imports Main
begin

section \<open>Constants of \<open>src/lib/bigint.ts\<close>\<close>

definition MAX_BYTES :: nat where
  "MAX_BYTES = 36"

definition PRECISION_BYTES :: nat where
  "PRECISION_BYTES = 18"

text \<open>
  \<open>POSITIVE_INFINITY = BigInt("1" + "0" * MAX_BYTES)\<close> and its negative: the numbers
  \<open>10^36\<close> and \<open>-10^36\<close>.
\<close>

definition POSITIVE_INFINITY :: int where
  "POSITIVE_INFINITY = 10 ^ MAX_BYTES"

definition NEGATIVE_INFINITY :: int where
  "NEGATIVE_INFINITY = - (10 ^ MAX_BYTES)"

section \<open>The JavaScript primitives the class calls\<close>

text \<open>
  Strings are character lists. \<open>Number\<close> and \<open>BigInt\<close> are called by the private constructor
  only, and the class is its only caller: every string that reaches them is made of decimal
  digits, a minus sign and (after a failed digit increment in \<open>roundString\<close>) the letters
  of \<open>NaN\<close>. The two are modelled on such strings: white space, a point, an exponent, the
  literals with a radix prefix and \<open>Infinity\<close> do not occur there. \<open>Number.parseInt\<close> also
  reads the exponent of the caller's text; it is modelled for ASCII text, without the rounding
  of its result to a double. The length an engine allows a string to have is left out.
\<close>

definition is_digit :: "char \<Rightarrow> bool" where
  "is_digit c = (48 \<le> (of_char c :: nat) \<and> (of_char c :: nat) \<le> 57)"

definition digit_val :: "char \<Rightarrow> nat" where
  "digit_val c = (of_char c :: nat) - 48"

definition parse_digits :: "string \<Rightarrow> nat" where
  "parse_digits s = foldl (\<lambda>a c. 10 * a + digit_val c) 0 s"

text \<open>The decimal numeral of a natural number, without leading zeros.\<close>

definition digit_char :: "nat \<Rightarrow> char" where
  "digit_char d = ''0123456789'' ! d"

fun digits_of :: "nat \<Rightarrow> string" where
  "digits_of n =
     (if n < 10 then [digit_char n]
      else digits_of (n div 10) @ [digit_char (n mod 10)])"

declare digits_of.simps [simp del]

text \<open>\<open>n.toString()\<close> of a bigint \<open>n\<close>.\<close>

definition BigInt_toString :: "int \<Rightarrow> string" where
  "BigInt_toString n = (if n < 0 then CHR ''-'' # digits_of (nat (- n)) else digits_of (nat n))"

text \<open>
  \<open>BigInt(s)\<close> of a string: the empty string is \<open>0n\<close>, an optionally signed digit string
  is its number, anything else raises a SyntaxError (\<open>None\<close>).
\<close>

definition BigInt :: "string \<Rightarrow> int option" where
  "BigInt s =
     (case s of
        [] \<Rightarrow> Some 0
      | c # r \<Rightarrow>
          if list_all is_digit s then Some (int (parse_digits s))
          else if c = CHR ''-'' \<and> r \<noteq> [] \<and> list_all is_digit r then Some (- int (parse_digits r))
          else if c = CHR ''+'' \<and> r \<noteq> [] \<and> list_all is_digit r then Some (int (parse_digits r))
          else None)"

text \<open>
  \<open>Number.isNaN(Number(s))\<close>: on the strings described above, \<open>Number(s)\<close> is a number
  exactly when \<open>s\<close> is empty or an optionally signed digit string.
\<close>

definition Number_isNaN :: "string \<Rightarrow> bool" where
  "Number_isNaN s = (BigInt s = None)"

text \<open>
  \<open>Number.parseInt(s)\<close> with no radix: leading white space is skipped, a sign is read, the
  prefix \<open>0x\<close> or \<open>0X\<close> selects radix 16, and the longest prefix of digits of the radix is
  the number; with no digit the result is \<open>NaN\<close> (\<open>None\<close>).
\<close>

definition is_white_space :: "char \<Rightarrow> bool" where
  "is_white_space c = ((of_char c :: nat) \<in> {9, 10, 11, 12, 13, 32})"

definition hex_val :: "char \<Rightarrow> nat option" where
  "hex_val c =
     (let n = (of_char c :: nat)
      in if 48 \<le> n \<and> n \<le> 57 then Some (n - 48)
         else if 97 \<le> n \<and> n \<le> 102 then Some (n - 87)
         else if 65 \<le> n \<and> n \<le> 70 then Some (n - 55)
         else None)"

definition parse_hex :: "string \<Rightarrow> nat" where
  "parse_hex s = foldl (\<lambda>a c. 16 * a + (case hex_val c of None \<Rightarrow> 0 | Some d \<Rightarrow> d)) 0 s"

definition parseInt :: "string \<Rightarrow> int option" where
  "parseInt inputString =
     (let S = dropWhile is_white_space inputString;
          neg = (case S of [] \<Rightarrow> False | c # _ \<Rightarrow> c = CHR ''-'');
          S' = (case S of [] \<Rightarrow> [] | c # t \<Rightarrow> if c = CHR ''-'' \<or> c = CHR ''+'' then t else S);
          hex = (take 2 S' = ''0x'' \<or> take 2 S' = ''0X'');
          Z = (if hex then takeWhile (\<lambda>c. hex_val c \<noteq> None) (drop 2 S')
               else takeWhile is_digit S');
          mathInt = (if hex then parse_hex Z else parse_digits Z)
      in if Z = [] then None else Some (if neg then - int mathInt else int mathInt))"

text \<open>\<open>(Number.parseInt(x) + 1).toString()\<close>: \<open>NaN + 1\<close> is \<open>NaN\<close>.\<close>

definition increment :: "string \<Rightarrow> string" where
  "increment x = (case parseInt x of None \<Rightarrow> ''NaN'' | Some n \<Rightarrow> BigInt_toString (n + 1))"

text \<open>\<open>s.split(sep)\<close> for a one-character separator: never the empty array.\<close>

fun split :: "char \<Rightarrow> string \<Rightarrow> string list" where
  "split sep [] = [[]]"
| "split sep (c # cs) =
     (case split sep cs of
        [] \<Rightarrow> [[c]]
      | p # ps \<Rightarrow> if c = sep then [] # p # ps else (c # p) # ps)"

text \<open>\<open>s.replace(a, b)\<close> for a one-character pattern: only the first match is replaced.\<close>

fun replace :: "char \<Rightarrow> string \<Rightarrow> string \<Rightarrow> string" where
  "replace a b [] = []"
| "replace a b (c # cs) = (if c = a then b @ cs else c # replace a b cs)"

text \<open>\<open>s.padEnd(n, "0")\<close> appends zeros on the right.\<close>

definition padEnd :: "string \<Rightarrow> nat \<Rightarrow> char \<Rightarrow> string" where
  "padEnd s n c = s @ replicate (n - length s) c"

section \<open>Private utility methods\<close>

text \<open>
  \<open>fixDecimalDigits(number)\<close> cuts to 18 characters or pads with zeros on the left. No
  method of the class calls it.
\<close>

definition fixDecimalDigits :: "string \<Rightarrow> string" where
  "fixDecimalDigits number =
     (if length number \<ge> PRECISION_BYTES then take PRECISION_BYTES number
      else replicate (PRECISION_BYTES - length number) (CHR ''0'') @ number)"

text \<open>
  The \<open>while\<close> loop of \<open>roundString\<close>: from \<open>index\<close> downwards, every \<open>"9"\<close> becomes
  \<open>"0"\<close>; the loop stops at index 0 without looking at that element.
\<close>

fun carry_loop :: "string list \<Rightarrow> nat \<Rightarrow> string list \<times> nat" where
  "carry_loop number 0 = (number, 0)"
| "carry_loop number (Suc i) =
     (if number ! Suc i = ''9'' then carry_loop (number[Suc i := ''0'']) i
      else (number, Suc i))"

text \<open>
  \<open>roundString(_number, precision)\<close>. The array \<open>number\<close> holds one string per character;
  past the length test \<open>number[precision]\<close> is never \<open>undefined\<close>. A \<open>NaN\<close> digit is not
  less than 5.
  With \<open>precision = 0\<close> the index starts at \<open>-1\<close>: the loop and the \<open>index === 0\<close> test are
  skipped and the write to \<open>number[-1]\<close> changes no element. In the \<open>index === 0\<close> branch
  the source joins the whole array, not its first \<open>precision\<close> elements.
\<close>

definition roundString :: "string \<Rightarrow> nat \<Rightarrow> string" where
  "roundString n precision =
     (if length n \<le> precision then n
      else
        let number = map (\<lambda>c. [c]) n;
            lastDigit = parseInt (number ! precision)
        in if (case lastDigit of None \<Rightarrow> False | Some d \<Rightarrow> d < 5)
           then concat (take precision number)
           else if precision = 0 then concat (take precision number)
           else
             (case carry_loop number (precision - 1) of
                (number', index) \<Rightarrow>
                  if index = 0 then
                    (if number' ! 0 = ''9'' then ''1'' @ concat (number'[0 := ''0''])
                     else concat (number'[0 := increment (number' ! 0)]))
                  else concat (take precision (number'[index := increment (number' ! index)]))))"

text \<open>
  \<open>widenScientificNotation(number)\<close>. Only a lower-case \<open>e\<close> is looked for. A \<open>NaN\<close>
  exponent is not negative and repeats \<open>"0"\<close> zero times.
\<close>

definition widenScientificNotation :: "string \<Rightarrow> string" where
  "widenScientificNotation number =
     (if CHR ''e'' \<in> set number then
        let parts = split (CHR ''e'') number;
            mantissa = parts ! 0;
            exponent = parts ! 1;
            exponentValue = parseInt (if exponent = [] then ''0'' else exponent)
        in (case exponentValue of
              None \<Rightarrow> replace (CHR ''.'') [] mantissa
            | Some k \<Rightarrow>
                if k < 0
                then ''0.'' @ replicate (nat (- k - 1)) (CHR ''0'') @ replace (CHR ''.'') [] mantissa
                else replace (CHR ''.'') [] mantissa @ replicate (nat k) (CHR ''0''))
      else number)"

section \<open>The class and its constructor\<close>

record BigNumber =
  bn_sign :: bool
  bn_value :: string
  bn_decimal :: string

text \<open>
  The four messages the class throws with, and the SyntaxError of \<open>BigInt\<close>. The first two
  are the specification's FormatError, the next two its RangeError.
\<close>

datatype error =
    Unrecognized_number_format
  | Cannot_be_parsed
  | Bigger_than_POSITIVE_INFINITY
  | Smaller_than_NEGATIVE_INFINITY
  | SyntaxError

definition FormatError :: "error \<Rightarrow> bool" where
  "FormatError e = (e = Unrecognized_number_format \<or> e = Cannot_be_parsed)"

definition RangeError :: "error \<Rightarrow> bool" where
  "RangeError e = (e = Bigger_than_POSITIVE_INFINITY \<or> e = Smaller_than_NEGATIVE_INFINITY)"

text \<open>\<open>new BigNumber(sign, value, decimal)\<close>.\<close>

definition new_BigNumber :: "bool \<Rightarrow> string \<Rightarrow> string \<Rightarrow> error + BigNumber" where
  "new_BigNumber sign val decimal =
     (if Number_isNaN val \<or> Number_isNaN decimal then Inl Unrecognized_number_format
      else
        (case (BigInt val, BigInt decimal) of
           (Some v, Some d) \<Rightarrow>
             if v > POSITIVE_INFINITY \<or> (v = POSITIVE_INFINITY \<and> d \<noteq> 0)
             then Inl Bigger_than_POSITIVE_INFINITY
             else if v < NEGATIVE_INFINITY \<or> (v = NEGATIVE_INFINITY \<and> d \<noteq> 0)
             then Inl Smaller_than_NEGATIVE_INFINITY
             else if length decimal \<ge> PRECISION_BYTES then
               (let newDecimal = roundString decimal PRECISION_BYTES
                in if length newDecimal > PRECISION_BYTES
                   then Inr \<lparr>bn_sign = sign, bn_value = BigInt_toString (v + 1),
                             bn_decimal = replicate PRECISION_BYTES (CHR ''0'')\<rparr>
                   else Inr \<lparr>bn_sign = sign, bn_value = val, bn_decimal = newDecimal\<rparr>)
             else Inr \<lparr>bn_sign = sign, bn_value = val,
                       bn_decimal = padEnd decimal PRECISION_BYTES (CHR ''0'')\<rparr>
         | _ \<Rightarrow> Inl SyntaxError))"

section \<open>Static constructors\<close>

definition copysign :: "BigNumber \<Rightarrow> BigNumber \<Rightarrow> error + BigNumber" where
  "copysign number sign = new_BigNumber (bn_sign sign) (bn_value number) (bn_decimal number)"

definition fromBigInt :: "int \<Rightarrow> error + BigNumber" where
  "fromBigInt n = new_BigNumber (n \<ge> 0) (BigInt_toString (if n < 0 then - n else n)) ''0''"

text \<open>
  \<open>fromString(value)\<close>. The regular expression \<open>/^[\d.]+$/\<close> asks for at least one
  character, each a digit or a point. \<open>split(".")\<close> always has a first element, so the
  test \<open>valueAsString === undefined\<close> never holds; the second element defaults to \<open>"0"\<close>
  only when it is missing.
\<close>

definition fromString :: "string \<Rightarrow> error + BigNumber" where
  "fromString s =
     (let numberAsString = widenScientificNotation (replace (CHR '','') ''.'' s)
      in if length (split (CHR ''.'') numberAsString) > 2 then Inl Cannot_be_parsed
         else
           let sign = (case numberAsString of [] \<Rightarrow> True | c # _ \<Rightarrow> c \<noteq> CHR ''-'');
               cleanedNumber = (if sign then numberAsString else drop 1 numberAsString)
           in if cleanedNumber = [] \<or> \<not> list_all (\<lambda>c. is_digit c \<or> c = CHR ''.'') cleanedNumber
              then Inl Cannot_be_parsed
              else
                let parts = split (CHR ''.'') cleanedNumber;
                    valueAsString = parts ! 0;
                    decimalAsString = (if length parts > 1 then parts ! 1 else ''0'')
                in new_BigNumber sign valueAsString decimalAsString)"

section \<open>Type conversion and type check methods\<close>

text \<open>
  The test \<open>this._decimal[0] && Number.parseInt(this._decimal[0]) >= 5\<close> of \<open>toBigInt\<close> and
  \<open>round\<close>.
\<close>

definition first_digit_rounds_up :: "string \<Rightarrow> bool" where
  "first_digit_rounds_up decimal =
     (case decimal of
        [] \<Rightarrow> False
      | c # _ \<Rightarrow> (case parseInt [c] of None \<Rightarrow> False | Some d \<Rightarrow> d \<ge> 5))"

definition toBigInt :: "BigNumber \<Rightarrow> error + int" where
  "toBigInt this =
     (case BigInt (bn_value this) of
        None \<Rightarrow> Inl SyntaxError
      | Some v \<Rightarrow>
          Inr ((if bn_sign this then 1 else - 1)
               * (v + (if first_digit_rounds_up (bn_decimal this) then 1 else 0))))"

definition toString :: "BigNumber \<Rightarrow> string" where
  "toString this =
     (if bn_sign this then [] else ''-'') @ bn_value this @ ''.'' @ bn_decimal this"

definition toInteger :: "BigNumber \<Rightarrow> string" where
  "toInteger this =
     (if bn_sign this then [] else ''-'')
     @ roundString (bn_value this @ take 1 (bn_decimal this)) (length (bn_value this))"

definition isInteger :: "BigNumber \<Rightarrow> error + bool" where
  "isInteger this =
     (case BigInt (bn_decimal this) of None \<Rightarrow> Inl SyntaxError | Some d \<Rightarrow> Inr (d = 0))"

definition isPositive :: "BigNumber \<Rightarrow> bool" where
  "isPositive this = bn_sign this"

section \<open>Arithmetic conversion methods\<close>

definition abs_bn :: "BigNumber \<Rightarrow> error + BigNumber" where
  "abs_bn this = new_BigNumber True (bn_value this) (bn_decimal this)"

text \<open>
  In \<open>ceil\<close> and \<open>floor\<close> the fraction is read only when the sign does not decide alone.
\<close>

definition ceil :: "BigNumber \<Rightarrow> error + BigNumber" where
  "ceil this =
     (case BigInt (bn_value this) of
        None \<Rightarrow> Inl SyntaxError
      | Some v \<Rightarrow>
          if \<not> bn_sign this
          then new_BigNumber (bn_sign this) (BigInt_toString (v + 0)) ''0''
          else
            (case BigInt (bn_decimal this) of
               None \<Rightarrow> Inl SyntaxError
             | Some d \<Rightarrow>
                 new_BigNumber (bn_sign this)
                   (BigInt_toString (v + (if d = 0 then 0 else 1))) ''0''))"

definition floor_bn :: "BigNumber \<Rightarrow> error + BigNumber" where
  "floor_bn this =
     (case BigInt (bn_value this) of
        None \<Rightarrow> Inl SyntaxError
      | Some v \<Rightarrow>
          if bn_sign this
          then new_BigNumber (bn_sign this) (BigInt_toString (v + 0)) ''0''
          else
            (case BigInt (bn_decimal this) of
               None \<Rightarrow> Inl SyntaxError
             | Some d \<Rightarrow>
                 new_BigNumber (bn_sign this)
                   (BigInt_toString (v + (if d \<noteq> 0 then 1 else 0))) ''0''))"

definition neg :: "BigNumber \<Rightarrow> error + BigNumber" where
  "neg this = new_BigNumber (\<not> bn_sign this) (bn_value this) (bn_decimal this)"

definition round_bn :: "BigNumber \<Rightarrow> error + BigNumber" where
  "round_bn this =
     (case BigInt (bn_value this) of
        None \<Rightarrow> Inl SyntaxError
      | Some v \<Rightarrow>
          new_BigNumber (bn_sign this)
            (BigInt_toString (v + (if first_digit_rounds_up (bn_decimal this) then 1 else 0)))
            ''0'')"

definition trunc :: "BigNumber \<Rightarrow> error + BigNumber" where
  "trunc this = new_BigNumber (bn_sign this) (bn_value this) ''0''"

section \<open>Logic comparison methods\<close>

definition equals :: "BigNumber \<Rightarrow> BigNumber \<Rightarrow> bool" where
  "equals this other =
     (bn_sign this = bn_sign other \<and> bn_value this = bn_value other
      \<and> bn_decimal this = bn_decimal other)"

definition gt :: "BigNumber \<Rightarrow> BigNumber \<Rightarrow> error + bool" where
  "gt this other =
     (if bn_sign this \<noteq> bn_sign other then Inr (bn_sign this)
      else
        (case (BigInt (bn_value this), BigInt (bn_value other)) of
           (Some v1, Some v2) \<Rightarrow>
             if v1 - v2 \<noteq> 0 then Inr (if bn_sign this then v1 - v2 > 0 else v1 - v2 < 0)
             else
               (case (BigInt (bn_decimal this), BigInt (bn_decimal other)) of
                  (Some d1, Some d2) \<Rightarrow> Inr (if bn_sign this then d1 > d2 else d1 < d2)
                | _ \<Rightarrow> Inl SyntaxError)
         | _ \<Rightarrow> Inl SyntaxError))"

definition gte :: "BigNumber \<Rightarrow> BigNumber \<Rightarrow> error + bool" where
  "gte this other =
     (case gt this other of Inl e \<Rightarrow> Inl e | Inr g \<Rightarrow> Inr (g \<or> equals this other))"

definition lt :: "BigNumber \<Rightarrow> BigNumber \<Rightarrow> error + bool" where
  "lt this other = (case gte this other of Inl e \<Rightarrow> Inl e | Inr g \<Rightarrow> Inr (\<not> g))"

definition lte :: "BigNumber \<Rightarrow> BigNumber \<Rightarrow> error + bool" where
  "lte this other = (case gt this other of Inl e \<Rightarrow> Inl e | Inr g \<Rightarrow> Inr (\<not> g))"

section \<open>Arithmetic methods\<close>

text \<open>
  The two ways \<open>add\<close> builds its result: from the sums of the fields when the signs agree,
  from their differences when \<open>this\<close> has the larger magnitude.
\<close>

definition add_fields :: "BigNumber \<Rightarrow> BigNumber \<Rightarrow> error + BigNumber" where
  "add_fields this other =
     (case (BigInt (bn_value this), BigInt (bn_value other),
            BigInt (bn_decimal this), BigInt (bn_decimal other)) of
        (Some v1, Some v2, Some d1, Some d2) \<Rightarrow>
          new_BigNumber (bn_sign this) (BigInt_toString (v1 + v2))
            (roundString (BigInt_toString (d1 + d2)) PRECISION_BYTES)
      | _ \<Rightarrow> Inl SyntaxError)"

definition subtract_fields :: "BigNumber \<Rightarrow> BigNumber \<Rightarrow> error + BigNumber" where
  "subtract_fields this other =
     (case (BigInt (bn_value this), BigInt (bn_value other),
            BigInt (bn_decimal this), BigInt (bn_decimal other)) of
        (Some v1, Some v2, Some d1, Some d2) \<Rightarrow>
          new_BigNumber (bn_sign this) (BigInt_toString (v1 - v2)) (BigInt_toString (d1 - d2))
      | _ \<Rightarrow> Inl SyntaxError)"

text \<open>
  The comparison \<open>this.abs().gt(other.abs())\<close>, with the errors of its three calls.
\<close>

definition abs_gt :: "BigNumber \<Rightarrow> BigNumber \<Rightarrow> error + bool" where
  "abs_gt this other =
     (case abs_bn this of
        Inl e \<Rightarrow> Inl e
      | Inr a \<Rightarrow> (case abs_bn other of Inl e \<Rightarrow> Inl e | Inr b \<Rightarrow> gt a b))"

function add :: "BigNumber \<Rightarrow> BigNumber \<Rightarrow> error + BigNumber" where
  "add this other =
     (if bn_sign this = bn_sign other then add_fields this other
      else
        (case abs_gt this other of
           Inl e \<Rightarrow> Inl e
         | Inr True \<Rightarrow> subtract_fields this other
         | Inr False \<Rightarrow> (case neg this of Inl e \<Rightarrow> Inl e | Inr n \<Rightarrow> add other n)))"
  by pat_completeness auto
termination
  by (relation "measure (\<lambda>(this, other). if bn_sign this = bn_sign other then 0 else 1)")
     (auto simp: neg_def new_BigNumber_def Let_def split: if_splits option.splits)

declare add.simps [simp del]

definition sub :: "BigNumber \<Rightarrow> BigNumber \<Rightarrow> error + BigNumber" where
  "sub this other = (case neg other of Inl e \<Rightarrow> Inl e | Inr n \<Rightarrow> add this n)"

text \<open>\<open>div\<close> and \<open>mul\<close>: "not implemented fully", both return the receiver.\<close>

definition div_bn :: "BigNumber \<Rightarrow> BigNumber \<Rightarrow> BigNumber" where
  "div_bn this other = this"

definition mul :: "BigNumber \<Rightarrow> BigNumber \<Rightarrow> BigNumber" where
  "mul this other = this"

definition inv_bn :: "BigNumber \<Rightarrow> error + BigNumber" where
  "inv_bn this = (case fromBigInt 1 of Inl e \<Rightarrow> Inl e | Inr one \<Rightarrow> Inr (div_bn one this))"

section \<open>Canonically written values\<close>

text \<open>
  A digit string is canonical when it is the decimal numeral of its own number (no leading
  zeros, not empty): \<open>BigInt(s).toString() === s\<close>. A value is well formed when its integer
  text is canonical and its fraction field consists of exactly 18 digits.
\<close>

definition canonical :: "string \<Rightarrow> bool" where
  "canonical s = (list_all is_digit s \<and> digits_of (parse_digits s) = s)"

definition well_formed :: "BigNumber \<Rightarrow> bool" where
  "well_formed v =
     (canonical (bn_value v) \<and> length (bn_decimal v) = PRECISION_BYTES
      \<and> list_all is_digit (bn_decimal v))"

section \<open>Evaluation rules\<close>

text \<open>
  Rules that let the simplifier run the definitions on concrete numerals and string literals.
\<close>

lemma digits_of_lt10: "n < 10 \<Longrightarrow> digits_of n = [digit_char n]"
  by (simp add: digits_of.simps)

lemma digits_of_ge10:
  "\<not> n < 10 \<Longrightarrow> digits_of n = digits_of (n div 10) @ [digit_char (n mod 10)]"
  by (subst digits_of.simps) simp

lemma replicate_numeral: "replicate (numeral k) x = x # replicate (pred_numeral k) x"
  by (simp add: numeral_eq_Suc)

lemma carry_loop_numeral:
  "carry_loop number (numeral k) =
     (if number ! numeral k = ''9'' then carry_loop (number[numeral k := ''0'']) (pred_numeral k)
      else (number, numeral k))"
  by (simp add: numeral_eq_Suc)

lemma list_update_numeral: "(x # xs)[numeral k := y] = x # xs[pred_numeral k := y]"
  by (simp add: numeral_eq_Suc)

lemmas js_eval =
  digits_of_lt10 digits_of_ge10 replicate_numeral carry_loop_numeral list_update_numeral
  digit_char_def BigInt_toString_def BigInt_def Number_isNaN_def is_digit_def digit_val_def
  parse_digits_def is_white_space_def hex_val_def parse_hex_def parseInt_def increment_def
  padEnd_def roundString_def widenScientificNotation_def MAX_BYTES_def PRECISION_BYTES_def
  POSITIVE_INFINITY_def NEGATIVE_INFINITY_def Let_def

lemmas bn_eval =
  js_eval new_BigNumber_def fromBigInt_def fromString_def first_digit_rounds_up_def toBigInt_def
  toString_def toInteger_def isPositive_def abs_bn_def neg_def equals_def gt_def add_fields_def
  subtract_fields_def abs_gt_def add.simps sub_def div_bn_def inv_bn_def

section \<open>Digit strings\<close>

text \<open>
  Digits are told from the other characters the class looks at, \<open>parse_digits\<close> reads a
  digit string from the left, and \<open>digits_of\<close> prints the number that \<open>parse_digits\<close> reads
  back.
\<close>

lemma not_digit_special:
  "\<not> is_digit (CHR ''.'')" "\<not> is_digit (CHR '','')" "\<not> is_digit (CHR ''-'')"
  "\<not> is_digit (CHR ''e'')" "\<not> is_digit (CHR ''E'')" "\<not> is_digit (CHR ''+'')"
  by (simp_all add: is_digit_def)

lemma digits_no_char: "list_all is_digit s \<Longrightarrow> \<not> is_digit c \<Longrightarrow> c \<notin> set s"
  by (auto simp: list_all_iff)

lemma digits_zeros: "list_all is_digit (replicate n (CHR ''0''))"
  by (induction n) (simp_all add: is_digit_def)

lemma digits_or_point: "list_all is_digit s \<Longrightarrow> list_all (\<lambda>c. is_digit c \<or> c = CHR ''.'') s"
  by (simp add: list_all_iff)

lemma digit_val_less: "is_digit c \<Longrightarrow> digit_val c < 10"
  unfolding is_digit_def digit_val_def by linarith

lemma digit_val_inject: "is_digit a \<Longrightarrow> is_digit b \<Longrightarrow> digit_val a = digit_val b \<Longrightarrow> a = b"
proof -
  assume "is_digit a" "is_digit b" "digit_val a = digit_val b"
  then have "(of_char a :: nat) = of_char b"
    unfolding is_digit_def digit_val_def by linarith
  then show "a = b" by simp
qed

lemma digit_char_digit: "d < 10 \<Longrightarrow> is_digit (digit_char d) \<and> digit_val (digit_char d) = d"
proof -
  assume "d < 10"
  then consider "d = 0" | "d = 1" | "d = 2" | "d = 3" | "d = 4" | "d = 5" | "d = 6" | "d = 7"
    | "d = 8" | "d = 9"
    by atomize_elim presburger
  then show ?thesis
    by cases (simp_all add: digit_char_def is_digit_def digit_val_def)
qed

lemma parse_digits_Nil: "parse_digits [] = 0"
  by (simp add: parse_digits_def)

lemma parse_digits_snoc: "parse_digits (s @ [c]) = 10 * parse_digits s + digit_val c"
  by (simp add: parse_digits_def)

lemma parse_digits_append:
  "parse_digits (a @ b) = parse_digits a * 10 ^ length b + parse_digits b"
proof (induction b rule: rev_induct)
  case Nil
  then show ?case by (simp add: parse_digits_Nil)
next
  case (snoc c b)
  have "parse_digits (a @ b @ [c]) = 10 * parse_digits (a @ b) + digit_val c"
    using parse_digits_snoc [of "a @ b" c] by simp
  with snoc show ?case
    by (simp add: parse_digits_snoc algebra_simps)
qed

lemma parse_digits_Cons: "parse_digits (c # s) = digit_val c * 10 ^ length s + parse_digits s"
  using parse_digits_append [of "[c]" s] parse_digits_snoc [of "[]" c]
  by (simp add: parse_digits_Nil)

lemma parse_digits_bound: "list_all is_digit s \<Longrightarrow> parse_digits s < 10 ^ length s"
proof (induction s rule: rev_induct)
  case Nil
  then show ?case by (simp add: parse_digits_Nil)
next
  case (snoc c s)
  then have "parse_digits s < 10 ^ length s" and "digit_val c < 10"
    by (simp_all add: digit_val_less)
  then have "10 * parse_digits s + digit_val c < 10 * 10 ^ length s"
    by linarith
  then show ?case by (simp add: parse_digits_snoc)
qed

lemma parse_digits_zeros: "parse_digits (replicate n (CHR ''0'')) = 0"
  by (induction n) (simp_all add: parse_digits_Nil parse_digits_Cons digit_val_def)

lemma parse_digits_shift:
  "parse_digits (m @ replicate k (CHR ''0'')) = parse_digits m * 10 ^ k"
  by (simp add: parse_digits_append parse_digits_zeros)

lemma parse_digits_inject:
  "length a = length b \<Longrightarrow> list_all is_digit a \<Longrightarrow> list_all is_digit b
   \<Longrightarrow> parse_digits a = parse_digits b \<Longrightarrow> a = b"
proof (induction a b rule: list_induct2)
  case Nil
  then show ?case by simp
next
  case (Cons x xs y ys)
  let ?p = "10 ^ length ys :: nat"
  have bx: "parse_digits xs < ?p" and by': "parse_digits ys < ?p"
    using Cons.hyps Cons.prems parse_digits_bound [of xs] parse_digits_bound [of ys] by simp_all
  have eq: "digit_val x * ?p + parse_digits xs = digit_val y * ?p + parse_digits ys"
    using Cons.prems(3) Cons.hyps by (simp add: parse_digits_Cons)
  have "(digit_val x * ?p + parse_digits xs) div ?p = digit_val x"
    using bx by simp
  moreover have "(digit_val y * ?p + parse_digits ys) div ?p = digit_val y"
    using by' by simp
  ultimately have dv: "digit_val x = digit_val y"
    using eq by simp
  then have "parse_digits xs = parse_digits ys"
    using eq by simp
  moreover have "x = y"
    using dv Cons.prems digit_val_inject by simp
  ultimately show ?case
    using Cons.IH Cons.prems by simp
qed

lemma parse_digits_eq_0:
  assumes "list_all is_digit s" and "parse_digits s = 0"
  shows "s = replicate (length s) (CHR ''0'')"
proof -
  have "list_all is_digit (replicate (length s) (CHR ''0''))"
    by (simp add: list_all_iff is_digit_def)
  with assms show ?thesis
    using parse_digits_inject [of s "replicate (length s) (CHR ''0'')"]
    by (simp add: parse_digits_zeros)
qed

lemma zero_text: "list_all is_digit ''0''" "parse_digits ''0'' = 0"
  by (simp_all add: is_digit_def parse_digits_def digit_val_def)

lemma digits_of_digits: "list_all is_digit (digits_of n)"
proof (induction n rule: digits_of.induct)
  case (1 n)
  show ?case
  proof (cases "n < 10")
    case True
    then show ?thesis by (simp add: digits_of_lt10 digit_char_digit)
  next
    case False
    then show ?thesis
      using 1 by (simp add: digits_of_ge10 digit_char_digit)
  qed
qed

lemma parse_digits_digits_of: "parse_digits (digits_of n) = n"
proof (induction n rule: digits_of.induct)
  case (1 n)
  show ?case
  proof (cases "n < 10")
    case True
    then show ?thesis
      using parse_digits_snoc [of "[]" "digit_char n"]
      by (simp add: digits_of_lt10 digit_char_digit parse_digits_Nil)
  next
    case False
    then show ?thesis
      using 1 by (simp add: digits_of_ge10 parse_digits_snoc digit_char_digit)
  qed
qed

lemma digits_of_not_Nil: "digits_of n \<noteq> []"
  by (cases "n < 10") (simp_all add: digits_of_lt10 digits_of_ge10)

lemma canonical_digits_of: "canonical (digits_of n)"
  by (simp add: canonical_def digits_of_digits parse_digits_digits_of)

lemma canonical_inject:
  "canonical a \<Longrightarrow> canonical b \<Longrightarrow> parse_digits a = parse_digits b \<Longrightarrow> a = b"
  by (metis canonical_def)

section \<open>The primitives on digit strings\<close>

lemma BigInt_digits: "list_all is_digit s \<Longrightarrow> BigInt s = Some (int (parse_digits s))"
  by (cases s) (simp_all add: BigInt_def parse_digits_Nil)

lemma Number_isNaN_digits: "list_all is_digit s \<Longrightarrow> \<not> Number_isNaN s"
  by (simp add: Number_isNaN_def BigInt_digits)

lemma takeWhile_digits: "list_all is_digit s \<Longrightarrow> takeWhile is_digit s = s"
  by (induction s) auto

lemma digit_not_white_space: "is_digit c \<Longrightarrow> \<not> is_white_space c"
  by (auto simp: is_digit_def is_white_space_def)

lemma digits_no_radix_prefix:
  "list_all is_digit s \<Longrightarrow> take 2 s \<noteq> ''0x'' \<and> take 2 s \<noteq> ''0X''"
proof (cases s)
  case Nil
  then show ?thesis by simp
next
  case (Cons c t)
  assume "list_all is_digit s"
  with Cons show ?thesis
    by (cases t) (auto simp: is_digit_def)
qed

lemma parseInt_digits:
  assumes "list_all is_digit s" and "s \<noteq> []"
  shows "parseInt s = Some (int (parse_digits s))"
proof -
  obtain c t where s: "s = c # t"
    using assms(2) by (cases s) auto
  then have c: "\<not> is_white_space c" "c \<noteq> CHR ''-''" "c \<noteq> CHR ''+''"
    using assms(1) by (auto simp: digit_not_white_space not_digit_special)
  have S: "dropWhile is_white_space s = s"
    using s c by simp
  have neg: "(case s of [] \<Rightarrow> False | c # x \<Rightarrow> c = CHR ''-'') = False"
    using s c by simp
  have S': "(case s of [] \<Rightarrow> [] | c # t \<Rightarrow> if c = CHR ''-'' \<or> c = CHR ''+'' then t else s) = s"
    using s c by simp
  have hex: "(take 2 s = ''0x'' \<or> take 2 s = ''0X'') = False"
    using digits_no_radix_prefix [OF assms(1)] by simp
  show ?thesis
    unfolding parseInt_def Let_def S neg S' hex
    using assms by (simp add: takeWhile_digits)
qed

lemma parseInt_minus_digits:
  assumes "list_all is_digit s" and "s \<noteq> []"
  shows "parseInt (CHR ''-'' # s) = Some (- int (parse_digits s))"
proof -
  have S: "dropWhile is_white_space (CHR ''-'' # s) = CHR ''-'' # s"
    by (simp add: is_white_space_def)
  have hex: "(take 2 s = ''0x'' \<or> take 2 s = ''0X'') = False"
    using digits_no_radix_prefix [OF assms(1)] by simp
  show ?thesis
    unfolding parseInt_def Let_def S list.case
    using assms by (simp add: takeWhile_digits hex del: take_Cons_numeral)
qed

lemma split_not_Nil: "split sep s \<noteq> []"
  by (induction s) (auto split: list.splits)

lemma split_absent: "sep \<notin> set s \<Longrightarrow> split sep s = [s]"
  by (induction s) (auto split: list.splits)

lemma split_at_first: "sep \<notin> set a \<Longrightarrow> split sep (a @ sep # b) = a # split sep b"
proof (induction a)
  case Nil
  then show ?case by (cases "split sep b") (simp_all add: split_not_Nil)
next
  case (Cons c a)
  then show ?case by auto
qed

lemma replace_absent: "a \<notin> set s \<Longrightarrow> replace a b s = s"
  by (induction s) auto

lemma replace_keeps: "c \<noteq> a \<Longrightarrow> c \<in> set s \<Longrightarrow> c \<in> set (replace a b s)"
  by (induction s) auto

lemma replace_adds: "c \<notin> set s \<Longrightarrow> c \<notin> set b \<Longrightarrow> c \<notin> set (replace a b s)"
  by (induction s) auto

section \<open>Rounding and text normalisation\<close>

lemma concat_singletons: "concat (map (\<lambda>c. [c]) s) = s"
  by (induction s) auto

lemma roundString_short: "length n \<le> precision \<Longrightarrow> roundString n precision = n"
  by (simp add: roundString_def)

lemma roundString_zeros:
  "roundString (replicate n (CHR ''0'')) PRECISION_BYTES = replicate (min n PRECISION_BYTES) (CHR ''0'')"
proof (cases "n \<le> PRECISION_BYTES")
  case True
  then show ?thesis by (simp add: roundString_short min_def)
next
  case False
  then have "parseInt (map (\<lambda>c. [c]) (replicate n (CHR ''0'')) ! PRECISION_BYTES) = Some 0"
    by (simp add: js_eval)
  moreover have "concat (take PRECISION_BYTES (map (\<lambda>c. [c]) (replicate n (CHR ''0''))))
      = replicate PRECISION_BYTES (CHR ''0'')"
    using False concat_singletons [of "replicate PRECISION_BYTES (CHR ''0'')"]
    by (simp add: take_map min_def)
  ultimately show ?thesis
    using False by (simp add: roundString_def Let_def min_def)
qed

text \<open>
  On a digit string \<open>roundString\<close> returns either more than \<open>precision\<close> characters
  (the carry reached index 0) or a digit string; when it cuts, the result has exactly
  \<open>precision\<close> digits.
\<close>

lemma carry_loop_inv:
  "carry_loop number i = (number', index) \<Longrightarrow>
     length number' = length number \<and> index \<le> i
     \<and> (0 < index \<longrightarrow> number' ! index \<noteq> ''9'')
     \<and> (\<forall>j\<le>index. number' ! j = number ! j)
     \<and> (\<forall>j. number' ! j = number ! j \<or> number' ! j = ''0'')"
proof (induction number i arbitrary: number' index rule: carry_loop.induct)
  case (1 number)
  then show ?case by simp
next
  case (2 number i)
  show ?case
  proof (cases "number ! Suc i = ''9''")
    case True
    then have "carry_loop (number[Suc i := ''0'']) i = (number', index)"
      using "2.prems" by simp
    note ih = "2.IH" [OF True this]
    have len: "length number' = length number"
      using ih [THEN conjunct1] by simp
    have le: "index \<le> i"
      using ih [THEN conjunct2, THEN conjunct1] .
    have not9: "0 < index \<longrightarrow> number' ! index \<noteq> ''9''"
      using ih [THEN conjunct2, THEN conjunct2, THEN conjunct1] .
    have low: "number' ! j = number[Suc i := ''0''] ! j" if "j \<le> index" for j
      using ih [THEN conjunct2, THEN conjunct2, THEN conjunct2, THEN conjunct1] that by blast
    have any: "number' ! j = number[Suc i := ''0''] ! j \<or> number' ! j = ''0''" for j
      using ih [THEN conjunct2, THEN conjunct2, THEN conjunct2, THEN conjunct2] by blast
    have low': "\<forall>j\<le>index. number' ! j = number ! j"
    proof (intro allI impI)
      fix j assume "j \<le> index"
      then have "number' ! j = number[Suc i := ''0''] ! j" and "Suc i \<noteq> j"
        using low le by simp_all
      then show "number' ! j = number ! j"
        by simp
    qed
    have any': "\<forall>j. number' ! j = number ! j \<or> number' ! j = ''0''"
    proof
      fix j
      show "number' ! j = number ! j \<or> number' ! j = ''0''"
      proof (cases "j = Suc i")
        case False
        then have "number[Suc i := ''0''] ! j = number ! j"
          by simp
        then show ?thesis using any [of j] by simp
      next
        case j: True
        show ?thesis
        proof (cases "Suc i < length number")
          case True
          then have "number[Suc i := ''0''] ! j = ''0''"
            using j by simp
          then show ?thesis using any [of j] by auto
        next
          case False
          then have "number[Suc i := ''0''] = number"
            by (simp add: list_update_beyond)
          then show ?thesis using any [of j] by simp
        qed
      qed
    qed
    have le': "index \<le> Suc i"
      using le by simp
    show ?thesis
      using len le' not9 low' any' by (intro conjI) assumption+
  next
    case False
    then have "number' = number" "index = Suc i"
      using "2.prems" by simp_all
    then show ?thesis
      using False by simp
  qed
qed

lemma carry_loop_props:
  assumes "carry_loop number i = (number', index)"
  shows "length number' = length number" and "index \<le> i"
    and "0 < index \<Longrightarrow> number' ! index \<noteq> ''9''"
    and "number' ! j = number ! j \<or> number' ! j = ''0''"
  using carry_loop_inv [OF assms] by blast+

lemma increment_digit:
  assumes "is_digit c" and "[c] \<noteq> ''9''"
  shows "\<exists>c'. increment [c] = [c'] \<and> is_digit c'"
proof -
  have p: "parseInt [c] = Some (int (digit_val c))"
    using assms(1) parseInt_digits [of "[c]"] parse_digits_snoc [of "[]" c]
    by (simp add: parse_digits_Nil)
  have "digit_val c \<noteq> 9"
  proof
    assume "digit_val c = 9"
    moreover have "is_digit (CHR ''9'')" "digit_val (CHR ''9'') = 9"
      by (simp_all add: is_digit_def digit_val_def)
    ultimately have "c = CHR ''9''"
      using assms(1) digit_val_inject [of c "CHR ''9''"] by simp
    then show False using assms(2) by simp
  qed
  then have lt: "digit_val c + 1 < 10"
    using digit_val_less [OF assms(1)] by linarith
  have "BigInt_toString (int (digit_val c) + 1) = digits_of (digit_val c + 1)"
    by (simp add: BigInt_toString_def nat_add_distrib)
  then have "increment [c] = [digit_char (digit_val c + 1)]"
    using p lt by (simp add: increment_def digits_of_lt10)
  then show ?thesis
    using digit_char_digit [OF lt] by simp
qed

lemma concat_digit_singletons:
  "\<forall>x\<in>set xs. \<exists>c. x = [c] \<and> is_digit c
   \<Longrightarrow> length (concat xs) = length xs \<and> list_all is_digit (concat xs)"
  by (induction xs) auto

lemma roundString_digits:
  assumes "list_all is_digit n" and "length (roundString n p) \<le> p"
  shows "list_all is_digit (roundString n p) \<and> (p < length n \<longrightarrow> length (roundString n p) = p)"
proof (cases "length n \<le> p")
  case True
  then show ?thesis using assms(1) by (simp add: roundString_short)
next
  case False
  let ?number = "map (\<lambda>c. [c]) n"
  have single: "\<forall>j<length n. \<exists>c. ?number ! j = [c] \<and> is_digit c"
    using assms(1) by (simp add: list_all_length)
  have tk: "concat (take p ?number) = take p n"
    using concat_singletons [of "take p n"] by (simp add: take_map)
  have tkd: "list_all is_digit (take p n)" "length (take p n) = p"
    using assms(1) False by (auto simp: list_all_iff dest: in_set_takeD)
  show ?thesis
  proof (cases "(case parseInt (?number ! p) of None \<Rightarrow> False | Some d \<Rightarrow> d < 5) \<or> p = 0")
    case True
    then have "roundString n p = take p n"
      using False tk by (auto simp: roundString_def Let_def)
    then show ?thesis using tkd by simp
  next
    case no_cut: False
    obtain number' index where cl: "carry_loop ?number (p - 1) = (number', index)"
      by (cases "carry_loop ?number (p - 1)") auto
    have props: "length number' = length n" "index \<le> p - 1"
      using carry_loop_props(1,2) [OF cl] by simp_all
    have not9: "0 < index \<Longrightarrow> number' ! index \<noteq> ''9''"
      using carry_loop_props(3) [OF cl] .
    have kept: "number' ! j = ?number ! j \<or> number' ! j = ''0''" for j
      using carry_loop_props(4) [OF cl] .
    have single': "\<forall>j<length n. \<exists>c. number' ! j = [c] \<and> is_digit c"
    proof (intro allI impI)
      fix j assume j: "j < length n"
      have "is_digit (CHR ''0'')" by (simp add: is_digit_def)
      then show "\<exists>c. number' ! j = [c] \<and> is_digit c"
        using kept [of j] single [rule_format, OF j] by auto
    qed
    show ?thesis
    proof (cases "index = 0")
      case True
      then have "roundString n p = ''1'' @ concat (number'[0 := ''0''])
                 \<or> roundString n p = concat (number'[0 := increment (number' ! 0)])"
        using False no_cut cl by (auto simp: roundString_def Let_def)
      moreover have "length (concat (number'[0 := ''0''])) = length n"
      proof -
        have "\<forall>x\<in>set (number'[0 := ''0'']). \<exists>c. x = [c] \<and> is_digit c"
        proof
          fix x assume "x \<in> set (number'[0 := ''0''])"
          then obtain j where j: "j < length n" "x = number'[0 := ''0''] ! j"
            using props(1) by (auto simp: in_set_conv_nth)
          have "is_digit (CHR ''0'')" by (simp add: is_digit_def)
          then show "\<exists>c. x = [c] \<and> is_digit c"
            using j single' [rule_format, of j] props(1) by (cases "j = 0") auto
        qed
        then show ?thesis
          using concat_digit_singletons [of "number'[0 := ''0'']"] props(1) by simp
      qed
      moreover have "length (concat (number'[0 := increment (number' ! 0)])) \<ge> length n"
      proof -
        have "length (concat (number'[0 := increment (number' ! 0)]))
              = length (increment (number' ! 0)) + length (concat (drop 1 number'))"
          using props(1) False by (cases number') auto
        moreover have "length (concat (drop 1 number')) = length n - 1"
        proof -
          have "\<forall>x\<in>set (drop 1 number'). \<exists>c. x = [c] \<and> is_digit c"
            using single' props(1) by (auto simp: in_set_conv_nth)
          then show ?thesis
            using concat_digit_singletons [of "drop 1 number'"] props(1) by simp
        qed
        moreover have "length (increment (number' ! 0)) \<ge> 1"
          by (auto simp: increment_def BigInt_toString_def digits_of_not_Nil Suc_le_eq
              split: option.splits)
        ultimately show ?thesis by linarith
      qed
      ultimately show ?thesis
        using assms(2) False by auto
    next
      case pos: False
      let ?L = "number'[index := increment (number' ! index)]"
      have rs: "roundString n p = concat (take p ?L)"
        using False no_cut cl pos by (auto simp: roundString_def Let_def)
      have idx: "index < length n"
        using props(2) False by linarith
      obtain c where c: "number' ! index = [c]" "is_digit c"
        using single' idx by blast
      have "[c] \<noteq> ''9''"
        using not9 pos c by simp
      then obtain c' where c': "increment [c] = [c']" "is_digit c'"
        using increment_digit [OF c(2)] by blast
      have "\<forall>x\<in>set (take p ?L). \<exists>c. x = [c] \<and> is_digit c"
      proof
        fix x assume "x \<in> set (take p ?L)"
        then have "x \<in> set ?L" by (rule in_set_takeD)
        then obtain j where j: "j < length n" "x = ?L ! j"
          using props(1) by (auto simp: in_set_conv_nth)
        show "\<exists>c. x = [c] \<and> is_digit c"
          using j single' [rule_format, of j] c c' props(1) by (cases "j = index") auto
      qed
      then have "length (concat (take p ?L)) = length (take p ?L)"
        and "list_all is_digit (concat (take p ?L))"
        using concat_digit_singletons [of "take p ?L"] by simp_all
      then show ?thesis
        using rs props(1) False by simp
    qed
  qed
qed

lemma widen_nonnegative_exponent:
  assumes "CHR ''e'' \<notin> set m" and "list_all is_digit ex" and "ex \<noteq> []"
  shows "widenScientificNotation (m @ CHR ''e'' # ex)
         = replace (CHR ''.'') [] m @ replicate (parse_digits ex) (CHR ''0'')"
proof -
  have "CHR ''e'' \<notin> set ex"
    using assms(2) by (simp add: digits_no_char not_digit_special)
  then have sp: "split (CHR ''e'') (m @ CHR ''e'' # ex) = [m, ex]"
    using assms(1) by (simp add: split_at_first split_absent)
  show ?thesis
    using assms(2,3)
    unfolding widenScientificNotation_def Let_def sp
    by (simp add: parseInt_digits)
qed

lemma widen_negative_exponent:
  assumes "CHR ''e'' \<notin> set m" and "list_all is_digit ex" and "0 < parse_digits ex"
  shows "widenScientificNotation (m @ CHR ''e'' # CHR ''-'' # ex)
         = ''0.'' @ replicate (parse_digits ex - 1) (CHR ''0'') @ replace (CHR ''.'') [] m"
proof -
  have ne: "ex \<noteq> []"
    using assms(3) by (auto simp: parse_digits_Nil)
  have "CHR ''e'' \<notin> set (CHR ''-'' # ex)"
    using assms(2) by (simp add: digits_no_char not_digit_special)
  then have sp: "split (CHR ''e'') (m @ CHR ''e'' # CHR ''-'' # ex) = [m, CHR ''-'' # ex]"
    using assms(1) split_at_first [of "CHR ''e''" m "CHR ''-'' # ex"]
      split_absent [of "CHR ''e''" "CHR ''-'' # ex"] by simp
  have k: "nat (int (parse_digits ex) - 1) = parse_digits ex - 1"
    by simp
  show ?thesis
    using assms(2,3) ne
    unfolding widenScientificNotation_def Let_def sp
    by (simp add: parseInt_minus_digits k)
qed

lemma widen_minus:
  "(\<exists>r. widenScientificNotation (CHR ''-'' # u) = CHR ''-'' # r)
   \<or> (\<exists>r. widenScientificNotation (CHR ''-'' # u) = CHR ''0'' # r \<and> CHR ''-'' \<in> set r)"
proof (cases "CHR ''e'' \<in> set (CHR ''-'' # u)")
  case False
  then show ?thesis by (simp add: widenScientificNotation_def)
next
  case True
  have m: "split (CHR ''e'') (CHR ''-'' # u) ! 0 = CHR ''-'' # hd (split (CHR ''e'') u)"
    by (cases "split (CHR ''e'') u") (simp_all add: split_not_Nil)
  have r: "replace (CHR ''.'') [] (CHR ''-'' # hd (split (CHR ''e'') u))
           = CHR ''-'' # replace (CHR ''.'') [] (hd (split (CHR ''e'') u))"
    by simp
  show ?thesis
    using True unfolding widenScientificNotation_def Let_def m r
    by (auto split: option.splits)
qed

section \<open>The constructor on digit strings\<close>

lemma zeros18: "replicate PRECISION_BYTES (CHR ''0'') = ''000000000000000000''"
  by (simp add: PRECISION_BYTES_def replicate_numeral)

lemma new_BigNumber_sign: "new_BigNumber sign val decimal = Inr r \<Longrightarrow> bn_sign r = sign"
  by (auto simp: new_BigNumber_def Let_def split: if_splits option.splits)

text \<open>
  Within the bound and with fewer than 18 fraction digits the constructor stores both texts,
  the fraction with zeros appended; a fraction of value zero is stored as 18 zeros whatever
  its length; beyond the bound the constructor throws.
\<close>

lemma new_BigNumber_short:
  assumes "list_all is_digit val" and "list_all is_digit decimal"
    and "int (parse_digits val) < POSITIVE_INFINITY
         \<or> (int (parse_digits val) = POSITIVE_INFINITY \<and> parse_digits decimal = 0)"
    and "length decimal < PRECISION_BYTES"
  shows "new_BigNumber sign val decimal
         = Inr \<lparr>bn_sign = sign, bn_value = val,
                bn_decimal = decimal @ replicate (PRECISION_BYTES - length decimal) (CHR ''0'')\<rparr>"
proof -
  have "NEGATIVE_INFINITY < int (parse_digits val)"
    by (simp add: NEGATIVE_INFINITY_def) (smt (verit) of_nat_0_le_iff zero_less_power)
  then show ?thesis
    using assms
    by (auto simp: new_BigNumber_def Number_isNaN_digits BigInt_digits padEnd_def)
qed

lemma new_BigNumber_zero_fraction:
  assumes "list_all is_digit val" and "list_all is_digit decimal"
    and "int (parse_digits val) \<le> POSITIVE_INFINITY" and "parse_digits decimal = 0"
  shows "new_BigNumber sign val decimal
         = Inr \<lparr>bn_sign = sign, bn_value = val, bn_decimal = replicate PRECISION_BYTES (CHR ''0'')\<rparr>"
proof -
  have neg: "NEGATIVE_INFINITY < int (parse_digits val)"
    by (simp add: NEGATIVE_INFINITY_def) (smt (verit) of_nat_0_le_iff zero_less_power)
  have dec: "decimal = replicate (length decimal) (CHR ''0'')"
    using assms parse_digits_eq_0 by simp
  have rs: "roundString decimal PRECISION_BYTES
            = replicate (min (length decimal) PRECISION_BYTES) (CHR ''0'')"
    using roundString_zeros [of "length decimal"] dec by simp
  show ?thesis
  proof (cases "length decimal < PRECISION_BYTES")
    case True
    have "decimal @ replicate (PRECISION_BYTES - length decimal) (CHR ''0'')
          = replicate PRECISION_BYTES (CHR ''0'')"
      using True dec replicate_add [of "length decimal" "PRECISION_BYTES - length decimal" "CHR ''0''"]
      by simp
    moreover have "int (parse_digits val) < POSITIVE_INFINITY
        \<or> (int (parse_digits val) = POSITIVE_INFINITY \<and> parse_digits decimal = 0)"
      using assms(3,4) by linarith
    ultimately show ?thesis
      using True assms(1,2) new_BigNumber_short [of val decimal sign] by simp
  next
    case False
    then show ?thesis
      using assms neg rs
      by (auto simp: new_BigNumber_def Number_isNaN_digits BigInt_digits Let_def min_def)
  qed
qed

lemma new_BigNumber_too_big:
  assumes "list_all is_digit val" and "list_all is_digit decimal"
    and "int (parse_digits val) > POSITIVE_INFINITY
         \<or> (int (parse_digits val) = POSITIVE_INFINITY \<and> parse_digits decimal \<noteq> 0)"
  shows "new_BigNumber sign val decimal = Inl Bigger_than_POSITIVE_INFINITY"
  using assms
  by (auto simp: new_BigNumber_def Number_isNaN_digits BigInt_digits)

lemma new_BigNumber_fields:
  assumes "list_all is_digit val" and "list_all is_digit decimal"
    and "new_BigNumber sign val decimal = Inr v"
  shows "list_all is_digit (bn_value v)"
    and "bn_value v = val \<or> bn_value v = digits_of (parse_digits val + 1)"
    and "length (bn_decimal v) = PRECISION_BYTES" and "list_all is_digit (bn_decimal v)"
proof -
  let ?r = "roundString decimal PRECISION_BYTES"
  consider (short) "length decimal < PRECISION_BYTES"
    | (carry) "PRECISION_BYTES \<le> length decimal" "PRECISION_BYTES < length ?r"
    | (cut) "PRECISION_BYTES \<le> length decimal" "length ?r \<le> PRECISION_BYTES"
    by linarith
  then have "list_all is_digit (bn_value v)
      \<and> (bn_value v = val \<or> bn_value v = digits_of (parse_digits val + 1))
      \<and> length (bn_decimal v) = PRECISION_BYTES \<and> list_all is_digit (bn_decimal v)"
  proof cases
    case short
    then have "v = \<lparr>bn_sign = sign, bn_value = val,
        bn_decimal = decimal @ replicate (PRECISION_BYTES - length decimal) (CHR ''0'')\<rparr>"
      using assms(3)
      by (auto simp: new_BigNumber_def padEnd_def split: if_splits option.splits)
    then show ?thesis
      using assms(1,2) short by (simp add: digits_zeros)
  next
    case carry
    have "BigInt_toString (int (parse_digits val) + 1) = digits_of (parse_digits val + 1)"
      by (simp add: BigInt_toString_def nat_add_distrib)
    then have "v = \<lparr>bn_sign = sign, bn_value = digits_of (parse_digits val + 1),
        bn_decimal = replicate PRECISION_BYTES (CHR ''0'')\<rparr>"
      using assms carry
      by (auto simp: new_BigNumber_def Let_def BigInt_digits split: if_splits)
    then show ?thesis
      by (simp add: digits_of_digits digits_zeros)
  next
    case cut
    then have v: "v = \<lparr>bn_sign = sign, bn_value = val, bn_decimal = ?r\<rparr>"
      using assms(3)
      by (auto simp: new_BigNumber_def Let_def split: if_splits option.splits)
    have d: "list_all is_digit ?r" "PRECISION_BYTES < length decimal \<longrightarrow> length ?r = PRECISION_BYTES"
      using roundString_digits [OF assms(2) cut(2)] by simp_all
    have "length ?r = PRECISION_BYTES"
    proof (cases "PRECISION_BYTES < length decimal")
      case True
      then show ?thesis using d(2) by simp
    next
      case False
      then show ?thesis using cut(1) by (simp add: roundString_short)
    qed
    then show ?thesis
      using v d(1) assms(1) by simp
  qed
  then show "list_all is_digit (bn_value v)"
    and "bn_value v = val \<or> bn_value v = digits_of (parse_digits val + 1)"
    and "length (bn_decimal v) = PRECISION_BYTES" and "list_all is_digit (bn_decimal v)"
    by simp_all
qed

lemma fromBigInt_eq:
  "fromBigInt n = new_BigNumber (n \<ge> 0) (digits_of (nat \<bar>n\<bar>)) ''0''"
  by (simp add: fromBigInt_def BigInt_toString_def abs_if)

lemma fromBigInt_within:
  assumes "\<bar>n\<bar> \<le> POSITIVE_INFINITY"
  shows "fromBigInt n
         = Inr \<lparr>bn_sign = n \<ge> 0, bn_value = digits_of (nat \<bar>n\<bar>),
                bn_decimal = ''000000000000000000''\<rparr>"
  using assms new_BigNumber_zero_fraction [of "digits_of (nat \<bar>n\<bar>)" "''0''" "n \<ge> 0"]
  by (simp add: fromBigInt_eq digits_of_digits parse_digits_digits_of zero_text zeros18 is_digit_def)

lemma fromBigInt_beyond:
  assumes "\<bar>n\<bar> > POSITIVE_INFINITY"
  shows "fromBigInt n = Inl Bigger_than_POSITIVE_INFINITY"
  using assms new_BigNumber_too_big [of "digits_of (nat \<bar>n\<bar>)" "''0''" "n \<ge> 0"]
  by (simp add: fromBigInt_eq digits_of_digits parse_digits_digits_of zero_text is_digit_def)

lemma fromBigInt_well_formed:
  assumes "fromBigInt n = Inr v"
  shows "well_formed v"
proof -
  let ?m = "if n < 0 then - n else n"
  have m: "BigInt_toString ?m = digits_of (nat ?m)"
    by (simp add: BigInt_toString_def)
  have "parse_digits ''0'' = 0" "list_all is_digit ''0''" "length ''0'' < PRECISION_BYTES"
    by (simp_all add: parse_digits_def digit_val_def is_digit_def PRECISION_BYTES_def)
  then have "int (parse_digits (digits_of (nat ?m))) \<le> POSITIVE_INFINITY
    \<Longrightarrow> new_BigNumber (n \<ge> 0) (digits_of (nat ?m)) ''0''
        = Inr \<lparr>bn_sign = n \<ge> 0, bn_value = digits_of (nat ?m),
               bn_decimal = replicate PRECISION_BYTES (CHR ''0'')\<rparr>"
    using new_BigNumber_zero_fraction [of "digits_of (nat ?m)" "''0''" "n \<ge> 0"]
    by (simp add: digits_of_digits)
  moreover have "\<not> int (parse_digits (digits_of (nat ?m))) \<le> POSITIVE_INFINITY
    \<Longrightarrow> new_BigNumber (n \<ge> 0) (digits_of (nat ?m)) ''0'' = Inl Bigger_than_POSITIVE_INFINITY"
    using new_BigNumber_too_big [of "digits_of (nat ?m)" "''0''" "n \<ge> 0"]
    by (simp add: digits_of_digits is_digit_def)
  ultimately have "v = \<lparr>bn_sign = n \<ge> 0, bn_value = digits_of (nat ?m),
               bn_decimal = replicate PRECISION_BYTES (CHR ''0'')\<rparr>"
    using assms m unfolding fromBigInt_def by (cases "int (parse_digits (digits_of (nat ?m))) \<le> POSITIVE_INFINITY") auto
  then show ?thesis
    by (simp add: well_formed_def canonical_digits_of list_all_iff is_digit_def)
qed

section \<open>Plain text through \<open>fromString\<close>\<close>

text \<open>
  Once the text is normalised to an optional minus sign and digits, or to digits, a point and
  digits, \<open>fromString\<close> hands the parts to the constructor.
\<close>

lemma fromString_plain_integer:
  assumes "widenScientificNotation (replace (CHR '','') ''.'' s) = (if negative then ''-'' else []) @ i"
    and "list_all is_digit i" and "i \<noteq> []"
  shows "fromString s = new_BigNumber (\<not> negative) i ''0''"
proof -
  have np: "CHR ''.'' \<notin> set i" and nm: "CHR ''-'' \<notin> set i"
    using assms(2) by (simp_all add: digits_no_char not_digit_special)
  have sg: "(case i of [] \<Rightarrow> True | c # x \<Rightarrow> c \<noteq> CHR ''-'') = True"
    using nm by (cases i) auto
  have si: "split (CHR ''.'') i = [i]"
    using np by (simp add: split_absent)
  have all: "list_all (\<lambda>c. is_digit c \<or> c = CHR ''.'') i"
    using assms(2) by (simp add: digits_or_point)
  show ?thesis
  proof (cases negative)
    case True
    then have N: "widenScientificNotation (replace (CHR '','') ''.'' s) = CHR ''-'' # i"
      using assms(1) by simp
    have sp: "split (CHR ''.'') (CHR ''-'' # i) = [CHR ''-'' # i]"
      using np by (simp add: split_absent del: split.simps)
    show ?thesis
      unfolding fromString_def Let_def N
      using True assms(3) all by (simp add: sp si del: split.simps)
  next
    case False
    then have N: "widenScientificNotation (replace (CHR '','') ''.'' s) = i"
      using assms(1) by simp
    show ?thesis
      unfolding fromString_def Let_def N
      using False assms(3) all by (simp add: sg si del: split.simps)
  qed
qed

lemma fromString_plain_fraction:
  assumes "widenScientificNotation (replace (CHR '','') ''.'' s) = i @ CHR ''.'' # f"
    and "list_all is_digit i" and "i \<noteq> []" and "list_all is_digit f"
  shows "fromString s = new_BigNumber True i f"
proof -
  have np: "CHR ''.'' \<notin> set i" "CHR ''.'' \<notin> set f" and nm: "CHR ''-'' \<notin> set i"
    using assms(2,4) by (simp_all add: digits_no_char not_digit_special)
  have sg: "(case i @ CHR ''.'' # f of [] \<Rightarrow> True | c # x \<Rightarrow> c \<noteq> CHR ''-'') = True"
    using nm assms(3) by (cases i) auto
  have sp: "split (CHR ''.'') (i @ CHR ''.'' # f) = [i, f]"
    using np by (simp add: split_at_first split_absent)
  have all: "list_all (\<lambda>c. is_digit c \<or> c = CHR ''.'') (i @ CHR ''.'' # f)"
    using assms(2,4) by (simp add: digits_or_point)
  show ?thesis
    unfolding fromString_def Let_def assms(1) sg
    using all by (simp add: sp)
qed

lemma fromString_sign:
  assumes "fromString s = Inr v"
  shows "bn_sign v = (case widenScientificNotation (replace (CHR '','') ''.'' s) of
                        [] \<Rightarrow> True | c # _ \<Rightarrow> c \<noteq> CHR ''-'')"
  using assms unfolding fromString_def Let_def
  by (auto split: if_splits dest: new_BigNumber_sign)

lemma fromString_cleaned:
  assumes "fromString s = Inr v"
    and "widenScientificNotation (replace (CHR '','') ''.'' s) = c # r" and "c \<noteq> CHR ''-''"
  shows "list_all (\<lambda>c. is_digit c \<or> c = CHR ''.'') (c # r)"
  using assms unfolding fromString_def Let_def
  by (auto split: if_splits)

lemma fromString_digits_point_digits:
  assumes "list_all is_digit i" and "i \<noteq> []" and "list_all is_digit f"
    and "length f < PRECISION_BYTES" and "int (parse_digits i) < POSITIVE_INFINITY"
  shows "fromString (i @ CHR ''.'' # f)
         = Inr \<lparr>bn_sign = True, bn_value = i,
                bn_decimal = f @ replicate (PRECISION_BYTES - length f) (CHR ''0'')\<rparr>"
proof -
  let ?s = "i @ CHR ''.'' # f"
  have "CHR '','' \<notin> set ?s" and e: "CHR ''e'' \<notin> set ?s"
    using assms(1,3) by (simp_all add: digits_no_char not_digit_special)
  then have "replace (CHR '','') ''.'' ?s = ?s"
    by (simp add: replace_absent)
  then have "widenScientificNotation (replace (CHR '','') ''.'' ?s) = ?s"
    using e by (simp add: widenScientificNotation_def)
  then have "fromString ?s = new_BigNumber True i f"
    using fromString_plain_fraction [of ?s i f] assms(1-3) by simp
  then show ?thesis
    using new_BigNumber_short [of i f True] assms by simp
qed

lemma fromString_integer_mantissa:
  assumes "list_all is_digit m" and "m \<noteq> []" and "list_all is_digit ex" and "ex \<noteq> []"
    and "int (parse_digits m) * 10 ^ parse_digits ex \<le> POSITIVE_INFINITY"
  shows "fromString ((if negative then ''-'' else []) @ m @ CHR ''e'' # ex)
         = Inr \<lparr>bn_sign = \<not> negative, bn_value = m @ replicate (parse_digits ex) (CHR ''0''),
                bn_decimal = ''000000000000000000''\<rparr>"
proof -
  let ?pre = "if negative then ''-'' else []"
  let ?i = "m @ replicate (parse_digits ex) (CHR ''0'')"
  have "CHR '','' \<notin> set (?pre @ m @ CHR ''e'' # ex)"
    using assms(1,3) by (simp add: digits_no_char not_digit_special)
  then have r: "replace (CHR '','') ''.'' (?pre @ m @ CHR ''e'' # ex) = (?pre @ m) @ CHR ''e'' # ex"
    by (simp add: replace_absent)
  have "CHR ''e'' \<notin> set (?pre @ m)" and np: "CHR ''.'' \<notin> set (?pre @ m)"
    using assms(1) by (simp_all add: digits_no_char not_digit_special)
  then have w: "widenScientificNotation ((?pre @ m) @ CHR ''e'' # ex) = ?pre @ ?i"
    using assms(3,4) widen_nonnegative_exponent [of "?pre @ m" ex]
    by (simp add: replace_absent)
  have i: "list_all is_digit ?i" "?i \<noteq> []"
    using assms(1,2) by (simp_all add: digits_zeros)
  have "fromString (?pre @ m @ CHR ''e'' # ex) = new_BigNumber (\<not> negative) ?i ''0''"
    using fromString_plain_integer [of "?pre @ m @ CHR ''e'' # ex" negative ?i] r w i by simp
  moreover have "int (parse_digits ?i) \<le> POSITIVE_INFINITY"
    using assms(5) by (simp add: parse_digits_shift)
  ultimately show ?thesis
    using new_BigNumber_zero_fraction [of ?i "''0''" "\<not> negative"] i zero_text
    by (simp add: zeros18)
qed

lemma fromString_negative_exponent:
  assumes "is_digit d" and "list_all is_digit f" and "list_all is_digit ex"
    and "0 < parse_digits ex" and "parse_digits ex + length f < PRECISION_BYTES"
  shows "fromString (d # CHR ''.'' # f @ ''e-'' @ ex)
         = Inr \<lparr>bn_sign = True, bn_value = ''0'',
                bn_decimal = replicate (parse_digits ex - 1) (CHR ''0'') @ d # f
                  @ replicate (PRECISION_BYTES - (parse_digits ex + length f)) (CHR ''0'')\<rparr>"
proof -
  let ?s = "d # CHR ''.'' # f @ ''e-'' @ ex"
  let ?m = "d # CHR ''.'' # f"
  let ?frac = "replicate (parse_digits ex - 1) (CHR ''0'') @ d # f"
  have "CHR '','' \<notin> set ?s"
    using assms(1-3) by (auto simp: digits_no_char not_digit_special)
  then have r: "replace (CHR '','') ''.'' ?s = ?m @ CHR ''e'' # CHR ''-'' # ex"
    using replace_absent [of "CHR '',''" ?s "''.''"] by simp
  have e: "CHR ''e'' \<notin> set ?m"
    using assms(1,2) by (auto simp: digits_no_char not_digit_special)
  have "replace (CHR ''.'') [] ?m = d # f"
    using assms(1) by (auto simp: not_digit_special)
  then have w: "widenScientificNotation (?m @ CHR ''e'' # CHR ''-'' # ex) = ''0'' @ CHR ''.'' # ?frac"
    using widen_negative_exponent [OF e assms(3,4)] by simp
  have fr: "list_all is_digit ?frac"
    using assms(1,2) by (simp add: digits_zeros)
  have "fromString ?s = new_BigNumber True ''0'' ?frac"
    using fromString_plain_fraction [of ?s "''0''" ?frac] r w fr zero_text(1) by simp
  moreover have "length ?frac < PRECISION_BYTES"
    using assms(4,5) by simp
  moreover have "int (parse_digits ''0'') < POSITIVE_INFINITY"
    by (simp add: zero_text POSITIVE_INFINITY_def)
  moreover have "PRECISION_BYTES - length ?frac = PRECISION_BYTES - (parse_digits ex + length f)"
    using assms(4) by simp
  ultimately show ?thesis
    using new_BigNumber_short [of "''0''" ?frac True] fr zero_text(1) by simp
qed

lemma upper_case_E_is_rejected:
  assumes "CHR ''E'' \<in> set s" and "CHR ''e'' \<notin> set s"
  shows "fromString s = Inl Cannot_be_parsed"
proof -
  let ?N = "replace (CHR '','') ''.'' s"
  have e: "CHR ''e'' \<notin> set ?N"
    using assms(2) by (simp add: replace_adds)
  have E: "CHR ''E'' \<in> set ?N"
    using assms(1) by (simp add: replace_keeps)
  have w: "widenScientificNotation ?N = ?N"
    using e by (simp add: widenScientificNotation_def)
  have bad: "\<not> (is_digit (CHR ''E'') \<or> CHR ''E'' = CHR ''.'')"
    by (simp add: is_digit_def)
  have "\<not> list_all (\<lambda>c. is_digit c \<or> c = CHR ''.'') ?N"
    unfolding list_all_iff using E bad by blast
  moreover have "\<not> list_all (\<lambda>c. is_digit c \<or> c = CHR ''.'') (drop 1 ?N)"
    if "?N = CHR ''-'' # r" for r
  proof -
    have "CHR ''E'' \<in> set (drop 1 ?N)" using E that by simp
    then show ?thesis unfolding list_all_iff using bad by blast
  qed
  ultimately show ?thesis
    unfolding fromString_def Let_def w
    by (cases ?N) (auto split: if_splits)
qed

text \<open>
  Every value that \<open>fromString\<close> returns has an integer text of digits and a fraction field
  of exactly 18 digits; it is well formed as soon as its integer text is canonical.
\<close>

lemma split_point_parts:
  "list_all (\<lambda>c. is_digit c \<or> c = CHR ''.'') s \<Longrightarrow> list_all (list_all is_digit) (split (CHR ''.'') s)"
proof (induction s)
  case Nil
  then show ?case by simp
next
  case (Cons c s)
  then show ?case
    by (cases "split (CHR ''.'') s") (auto simp: split_not_Nil)
qed

lemma fromString_fields:
  assumes "fromString s = Inr v"
  shows "list_all is_digit (bn_value v)" and "length (bn_decimal v) = PRECISION_BYTES"
    and "list_all is_digit (bn_decimal v)"
proof -
  let ?N = "widenScientificNotation (replace (CHR '','') ''.'' s)"
  let ?sign = "case ?N of [] \<Rightarrow> True | c # x \<Rightarrow> c \<noteq> CHR ''-''"
  let ?cleaned = "if ?sign then ?N else drop 1 ?N"
  let ?parts = "split (CHR ''.'') ?cleaned"
  let ?decimal = "if length ?parts > 1 then ?parts ! 1 else ''0''"
  have ok: "list_all (\<lambda>c. is_digit c \<or> c = CHR ''.'') ?cleaned"
    and new: "new_BigNumber ?sign (?parts ! 0) ?decimal = Inr v"
    using assms unfolding fromString_def Let_def
    by (auto split: if_splits)
  have parts: "list_all (list_all is_digit) ?parts"
    using split_point_parts [OF ok] .
  have "?parts \<noteq> []"
    by (rule split_not_Nil)
  then have p0: "list_all is_digit (?parts ! 0)"
    using parts by (cases ?parts) auto
  have p1: "list_all is_digit ?decimal"
    using parts by (auto simp: list_all_length is_digit_def)
  show "list_all is_digit (bn_value v)" and "length (bn_decimal v) = PRECISION_BYTES"
    and "list_all is_digit (bn_decimal v)"
    using new_BigNumber_fields [OF p0 p1 new] by simp_all
qed

lemma fromString_well_formed:
  "fromString s = Inr v \<Longrightarrow> canonical (bn_value v) \<Longrightarrow> well_formed v"
  by (simp add: well_formed_def fromString_fields)

section \<open>Addition\<close>

text \<open>
  Claim C1 says that \<open>a.add(b)\<close> is the exact sum, with the carry out of the fraction, the
  borrow into it, and the exchange of the operands when \<open>this\<close> is not the larger one. The
  code does none of the three: \<open>0.5 + 0.5\<close> is \<open>0.1\<close> (the nineteenth digit of the sum of
  the fractions is cut off, nothing is carried) and twice \<open>0.000000000000000001\<close> is
  \<open>0.2\<close> (the sum \<open>2\<close> of the fractions is padded on the right), \<open>2 + (-1.5)\<close> has the fraction text
  \<open>-50000000000000000\<close> (the negative difference of the fractions is stored as it is
  printed), and \<open>1 + (-2)\<close> is \<open>-3\<close> (the exchange adds the negated receiver, which has
  the sign of the other operand by then).
\<close>

theorem add_is_not_the_sum:
  "fromString ''0.5'' = Inr \<lparr>bn_sign = True, bn_value = ''0'', bn_decimal = ''500000000000000000''\<rparr>
   \<and> add \<lparr>bn_sign = True, bn_value = ''0'', bn_decimal = ''500000000000000000''\<rparr>
          \<lparr>bn_sign = True, bn_value = ''0'', bn_decimal = ''500000000000000000''\<rparr>
       = Inr \<lparr>bn_sign = True, bn_value = ''0'', bn_decimal = ''100000000000000000''\<rparr>
   \<and> add \<lparr>bn_sign = True, bn_value = ''0'', bn_decimal = ''000000000000000001''\<rparr>
          \<lparr>bn_sign = True, bn_value = ''0'', bn_decimal = ''000000000000000001''\<rparr>
       = Inr \<lparr>bn_sign = True, bn_value = ''0'', bn_decimal = ''200000000000000000''\<rparr>
   \<and> add \<lparr>bn_sign = True, bn_value = ''2'', bn_decimal = ''000000000000000000''\<rparr>
          \<lparr>bn_sign = False, bn_value = ''1'', bn_decimal = ''500000000000000000''\<rparr>
       = Inr \<lparr>bn_sign = True, bn_value = ''1'', bn_decimal = ''-50000000000000000''\<rparr>
   \<and> add \<lparr>bn_sign = True, bn_value = ''1'', bn_decimal = ''000000000000000000''\<rparr>
          \<lparr>bn_sign = False, bn_value = ''2'', bn_decimal = ''000000000000000000''\<rparr>
       = Inr \<lparr>bn_sign = False, bn_value = ''3'', bn_decimal = ''000000000000000000''\<rparr>"
  by (simp add: bn_eval)

text \<open>
  Claim C2 says that \<open>A.add(A.neg())\<close> equals \<open>fromBigInt(0n)\<close>. For \<open>A = 1\<close> the
  magnitudes are equal, so \<open>add\<close> calls \<open>other.add(this.neg())\<close>, which is
  \<open>(-1).add(-1)\<close>, and returns \<open>-2\<close>.
\<close>

theorem add_neg_of_one_is_minus_two:
  "fromBigInt 1 = Inr \<lparr>bn_sign = True, bn_value = ''1'', bn_decimal = ''000000000000000000''\<rparr>
   \<and> neg \<lparr>bn_sign = True, bn_value = ''1'', bn_decimal = ''000000000000000000''\<rparr>
       = Inr \<lparr>bn_sign = False, bn_value = ''1'', bn_decimal = ''000000000000000000''\<rparr>
   \<and> add \<lparr>bn_sign = True, bn_value = ''1'', bn_decimal = ''000000000000000000''\<rparr>
          \<lparr>bn_sign = False, bn_value = ''1'', bn_decimal = ''000000000000000000''\<rparr>
       = Inr \<lparr>bn_sign = False, bn_value = ''2'', bn_decimal = ''000000000000000000''\<rparr>
   \<and> fromBigInt 0 = Inr \<lparr>bn_sign = True, bn_value = ''0'', bn_decimal = ''000000000000000000''\<rparr>
   \<and> \<not> equals \<lparr>bn_sign = False, bn_value = ''2'', bn_decimal = ''000000000000000000''\<rparr>
               \<lparr>bn_sign = True, bn_value = ''0'', bn_decimal = ''000000000000000000''\<rparr>"
  by (simp add: bn_eval)

section \<open>The sign of zero\<close>

text \<open>
  Claim C3, as amended: zero is not normalised. \<open>isPositive\<close> returns the stored sign, and
  every value that \<open>fromString\<close> returns for a text that begins with a minus sign is
  negative and printed with the minus sign, zero included; the zero of \<open>fromBigInt(0n)\<close>
  is positive and printed as \<open>0.000000000000000000\<close>.
\<close>

theorem leading_minus_is_the_sign:
  "(fromString (CHR ''-'' # t) = Inr v \<longrightarrow>
      \<not> isPositive v \<and> toString v = CHR ''-'' # bn_value v @ ''.'' @ bn_decimal v)
   \<and> fromBigInt 0 = Inr \<lparr>bn_sign = True, bn_value = ''0'', bn_decimal = ''000000000000000000''\<rparr>
   \<and> isPositive \<lparr>bn_sign = True, bn_value = ''0'', bn_decimal = ''000000000000000000''\<rparr>
   \<and> toString \<lparr>bn_sign = True, bn_value = ''0'', bn_decimal = ''000000000000000000''\<rparr>
       = ''0.000000000000000000''"
proof -
  have "\<not> isPositive v \<and> toString v = CHR ''-'' # bn_value v @ ''.'' @ bn_decimal v"
    if ok: "fromString (CHR ''-'' # t) = Inr v"
  proof -
    let ?N = "widenScientificNotation (replace (CHR '','') ''.'' (CHR ''-'' # t))"
    have N: "?N = widenScientificNotation (CHR ''-'' # replace (CHR '','') ''.'' t)"
      by simp
    from widen_minus [of "replace (CHR '','') ''.'' t"]
    have "\<exists>r. ?N = CHR ''-'' # r"
    proof
      assume "\<exists>r. widenScientificNotation (CHR ''-'' # replace (CHR '','') ''.'' t) = CHR ''-'' # r"
      then show ?thesis using N by simp
    next
      assume "\<exists>r. widenScientificNotation (CHR ''-'' # replace (CHR '','') ''.'' t) = CHR ''0'' # r
                  \<and> CHR ''-'' \<in> set r"
      then obtain r where r: "?N = CHR ''0'' # r" and mem: "CHR ''-'' \<in> set r"
        using N by auto
      have "list_all (\<lambda>c. is_digit c \<or> c = CHR ''.'') (CHR ''0'' # r)"
        using fromString_cleaned [OF ok r] by simp
      then have "is_digit (CHR ''-'') \<or> CHR ''-'' = CHR ''.''"
        using mem by (auto simp: list_all_iff)
      then show ?thesis by (simp add: is_digit_def)
    qed
    then have "bn_sign v = False"
      using fromString_sign [OF ok] by auto
    then show ?thesis
      by (simp add: isPositive_def toString_def)
  qed
  moreover have "fromBigInt 0
      = Inr \<lparr>bn_sign = True, bn_value = ''0'', bn_decimal = ''000000000000000000''\<rparr>"
    by (simp add: bn_eval)
  ultimately show ?thesis
    by (simp add: isPositive_def toString_def)
qed

text \<open>
  The amended claim at \<open>-0.0\<close>.
\<close>

theorem leading_minus_is_the_sign_witness:
  "fromString ''-0.0''
     = Inr \<lparr>bn_sign = False, bn_value = ''0'', bn_decimal = ''000000000000000000''\<rparr>
   \<and> \<not> isPositive \<lparr>bn_sign = False, bn_value = ''0'', bn_decimal = ''000000000000000000''\<rparr>
   \<and> toString \<lparr>bn_sign = False, bn_value = ''0'', bn_decimal = ''000000000000000000''\<rparr>
       = ''-0.000000000000000000''"
proof -
  have ok: "fromString (CHR ''-'' # ''0.0'')
     = Inr \<lparr>bn_sign = False, bn_value = ''0'', bn_decimal = ''000000000000000000''\<rparr>"
    by (simp add: bn_eval)
  show ?thesis
    using ok leading_minus_is_the_sign [of "''0.0''"
        "\<lparr>bn_sign = False, bn_value = ''0'', bn_decimal = ''000000000000000000''\<rparr>"]
    by simp
qed

text \<open>
  Claim C3 as stated fails at \<open>-0.0\<close>: \<open>isPositive\<close> is false and the text has the minus
  sign.
\<close>

theorem negative_zero_is_kept:
  "fromString ''-0.0''
     = Inr \<lparr>bn_sign = False, bn_value = ''0'', bn_decimal = ''000000000000000000''\<rparr>
   \<and> isPositive \<lparr>bn_sign = False, bn_value = ''0'', bn_decimal = ''000000000000000000''\<rparr> = False
   \<and> toString \<lparr>bn_sign = False, bn_value = ''0'', bn_decimal = ''000000000000000000''\<rparr>
       = ''-0.000000000000000000''"
  by (simp add: bn_eval)

section \<open>Comparison\<close>

lemma gt_well_formed:
  assumes "well_formed a" and "well_formed b"
  shows "gt a b =
     Inr (if bn_sign a \<noteq> bn_sign b then bn_sign a
          else if parse_digits (bn_value a) \<noteq> parse_digits (bn_value b)
          then (if bn_sign a then parse_digits (bn_value a) > parse_digits (bn_value b)
                else parse_digits (bn_value a) < parse_digits (bn_value b))
          else (if bn_sign a then parse_digits (bn_decimal a) > parse_digits (bn_decimal b)
                else parse_digits (bn_decimal a) < parse_digits (bn_decimal b)))"
  using assms
  by (auto simp: gt_def well_formed_def canonical_def BigInt_digits)

lemma equals_well_formed:
  assumes "well_formed a" and "well_formed b"
  shows "equals a b \<longleftrightarrow>
     bn_sign a = bn_sign b \<and> parse_digits (bn_value a) = parse_digits (bn_value b)
     \<and> parse_digits (bn_decimal a) = parse_digits (bn_decimal b)"
proof -
  have "bn_value a = bn_value b \<longleftrightarrow> parse_digits (bn_value a) = parse_digits (bn_value b)"
    using assms canonical_inject [of "bn_value a" "bn_value b"]
    by (auto simp: well_formed_def)
  moreover have "bn_decimal a = bn_decimal b
      \<longleftrightarrow> parse_digits (bn_decimal a) = parse_digits (bn_decimal b)"
    using assms parse_digits_inject [of "bn_decimal a" "bn_decimal b"]
    by (auto simp: well_formed_def)
  ultimately show ?thesis
    by (simp add: equals_def)
qed

text \<open>
  Where both integer texts are canonical and both fraction fields have 18 digits, \<open>gt\<close>
  and \<open>equals\<close> read the same numbers: exactly one of \<open>A.gt(B)\<close>, \<open>A.equals(B)\<close> and
  \<open>B.gt(A)\<close> holds, and neither comparison throws. The values of \<open>fromBigInt\<close> are well
  formed, and so are the values of \<open>fromString\<close> whose integer text is canonical
  (\<open>fromBigInt_well_formed\<close>, \<open>fromString_well_formed\<close>).
\<close>

lemma comparison_of_well_formed_values:
  assumes "well_formed a" and "well_formed b"
  shows "\<exists>g1 g2. gt a b = Inr g1 \<and> gt b a = Inr g2
           \<and> ((g1 \<and> \<not> equals a b \<and> \<not> g2)
              \<or> (\<not> g1 \<and> equals a b \<and> \<not> g2)
              \<or> (\<not> g1 \<and> \<not> equals a b \<and> g2))"
proof -
  let ?va = "parse_digits (bn_value a)" and ?vb = "parse_digits (bn_value b)"
  let ?da = "parse_digits (bn_decimal a)" and ?db = "parse_digits (bn_decimal b)"
  consider (signs) "bn_sign a \<noteq> bn_sign b"
    | (vals) "bn_sign a = bn_sign b" "?va \<noteq> ?vb"
    | (decs) "bn_sign a = bn_sign b" "?va = ?vb" "?da \<noteq> ?db"
    | (same) "bn_sign a = bn_sign b" "?va = ?vb" "?da = ?db"
    by blast
  then show ?thesis
  proof cases
    case signs
    then show ?thesis
      using assms by (auto simp: gt_well_formed equals_well_formed)
  next
    case vals
    then show ?thesis
      using assms by (auto simp: gt_well_formed equals_well_formed)
  next
    case decs
    then show ?thesis
      using assms by (auto simp: gt_well_formed equals_well_formed)
  next
    case same
    then show ?thesis
      using assms by (auto simp: gt_well_formed equals_well_formed)
  qed
qed

text \<open>
  Positive and negative zero are told apart by the sign alone: the positive one is the
  greater.
\<close>

lemma comparison_of_signed_zeros:
  "well_formed \<lparr>bn_sign = True, bn_value = ''0'', bn_decimal = ''000000000000000000''\<rparr>
   \<and> well_formed \<lparr>bn_sign = False, bn_value = ''0'', bn_decimal = ''000000000000000000''\<rparr>
   \<and> gt \<lparr>bn_sign = True, bn_value = ''0'', bn_decimal = ''000000000000000000''\<rparr>
         \<lparr>bn_sign = False, bn_value = ''0'', bn_decimal = ''000000000000000000''\<rparr> = Inr True
   \<and> \<not> equals \<lparr>bn_sign = True, bn_value = ''0'', bn_decimal = ''000000000000000000''\<rparr>
         \<lparr>bn_sign = False, bn_value = ''0'', bn_decimal = ''000000000000000000''\<rparr>
   \<and> gt \<lparr>bn_sign = False, bn_value = ''0'', bn_decimal = ''000000000000000000''\<rparr>
         \<lparr>bn_sign = True, bn_value = ''0'', bn_decimal = ''000000000000000000''\<rparr> = Inr False"
proof -
  let ?p = "\<lparr>bn_sign = True, bn_value = ''0'', bn_decimal = ''000000000000000000''\<rparr>"
  let ?m = "\<lparr>bn_sign = False, bn_value = ''0'', bn_decimal = ''000000000000000000''\<rparr>"
  have w: "well_formed ?p" "well_formed ?m"
    by (simp_all add: well_formed_def canonical_def js_eval)
  show ?thesis
    using w comparison_of_well_formed_values [OF w]
    by (simp add: bn_eval)
qed

text \<open>
  Claim C4 says that exactly one of \<open>A.gt(B)\<close>, \<open>A.equals(B)\<close> and \<open>B.gt(A)\<close> holds, also
  for equal numbers written differently. For \<open>01\<close> and \<open>1\<close> none of the three holds:
  \<open>fromString\<close> stores the integer text as written, \<open>gt\<close> compares \<open>BigInt\<close> of the texts
  and \<open>equals\<close> the texts themselves. The derived comparisons follow: \<open>gte\<close> is false and
  \<open>lt\<close> is true in both directions. \<open>add\<close> stores \<open>BigInt(..).toString()\<close>, so \<open>01 + 0\<close>
  has the integer text \<open>1\<close> and equals \<open>fromString("1")\<close>.
\<close>

theorem leading_zero_breaks_trichotomy:
  "fromString ''01''
     = Inr \<lparr>bn_sign = True, bn_value = ''01'', bn_decimal = ''000000000000000000''\<rparr>
   \<and> fromString ''1''
     = Inr \<lparr>bn_sign = True, bn_value = ''1'', bn_decimal = ''000000000000000000''\<rparr>
   \<and> gt \<lparr>bn_sign = True, bn_value = ''01'', bn_decimal = ''000000000000000000''\<rparr>
         \<lparr>bn_sign = True, bn_value = ''1'', bn_decimal = ''000000000000000000''\<rparr> = Inr False
   \<and> equals \<lparr>bn_sign = True, bn_value = ''01'', bn_decimal = ''000000000000000000''\<rparr>
         \<lparr>bn_sign = True, bn_value = ''1'', bn_decimal = ''000000000000000000''\<rparr> = False
   \<and> gt \<lparr>bn_sign = True, bn_value = ''1'', bn_decimal = ''000000000000000000''\<rparr>
         \<lparr>bn_sign = True, bn_value = ''01'', bn_decimal = ''000000000000000000''\<rparr> = Inr False
   \<and> gte \<lparr>bn_sign = True, bn_value = ''01'', bn_decimal = ''000000000000000000''\<rparr>
         \<lparr>bn_sign = True, bn_value = ''1'', bn_decimal = ''000000000000000000''\<rparr> = Inr False
   \<and> gte \<lparr>bn_sign = True, bn_value = ''1'', bn_decimal = ''000000000000000000''\<rparr>
         \<lparr>bn_sign = True, bn_value = ''01'', bn_decimal = ''000000000000000000''\<rparr> = Inr False
   \<and> lt \<lparr>bn_sign = True, bn_value = ''01'', bn_decimal = ''000000000000000000''\<rparr>
         \<lparr>bn_sign = True, bn_value = ''1'', bn_decimal = ''000000000000000000''\<rparr> = Inr True
   \<and> lt \<lparr>bn_sign = True, bn_value = ''1'', bn_decimal = ''000000000000000000''\<rparr>
         \<lparr>bn_sign = True, bn_value = ''01'', bn_decimal = ''000000000000000000''\<rparr> = Inr True
   \<and> add \<lparr>bn_sign = True, bn_value = ''01'', bn_decimal = ''000000000000000000''\<rparr>
          \<lparr>bn_sign = True, bn_value = ''0'', bn_decimal = ''000000000000000000''\<rparr>
       = Inr \<lparr>bn_sign = True, bn_value = ''1'', bn_decimal = ''000000000000000000''\<rparr>"
  by (simp add: bn_eval gte_def lt_def)

section \<open>Division\<close>

text \<open>
  Claim C5 says that \<open>div\<close> and \<open>inv\<close> fail with DivisionByZero on a divisor of magnitude
  zero. \<open>div\<close> returns its receiver whatever the divisor is, so \<open>inv\<close> of zero is one.
\<close>

theorem div_by_zero_returns_the_receiver:
  "div_bn this \<lparr>bn_sign = True, bn_value = ''0'', bn_decimal = ''000000000000000000''\<rparr> = this
   \<and> inv_bn \<lparr>bn_sign = True, bn_value = ''0'', bn_decimal = ''000000000000000000''\<rparr>
       = Inr \<lparr>bn_sign = True, bn_value = ''1'', bn_decimal = ''000000000000000000''\<rparr>"
  by (simp add: bn_eval)

section \<open>Conversion to an integer text\<close>

text \<open>
  Claim C6 says that \<open>toInteger\<close> of \<open>999.5\<close> is \<open>1000\<close>. The carry reaches index 0 of
  \<open>9995\<close>, where \<open>roundString\<close> joins the whole array: the result is \<open>10005\<close>, while
  \<open>toBigInt\<close> of the same value is \<open>1000\<close>.
\<close>

theorem toInteger_keeps_the_cut_digit:
  "fromString ''999.5''
     = Inr \<lparr>bn_sign = True, bn_value = ''999'', bn_decimal = ''500000000000000000''\<rparr>
   \<and> toInteger \<lparr>bn_sign = True, bn_value = ''999'', bn_decimal = ''500000000000000000''\<rparr>
       = ''10005''
   \<and> toBigInt \<lparr>bn_sign = True, bn_value = ''999'', bn_decimal = ''500000000000000000''\<rparr>
       = Inr 1000"
  by (simp add: bn_eval)

section \<open>Scientific notation\<close>

text \<open>
  Claim C7, as amended, for the marker \<open>e\<close> in lower case. A mantissa of digits, with or
  without a minus sign, and an exponent \<open>k\<close> of digits give the digits of the mantissa
  followed by \<open>k\<close> zeros, as long as the result is within the bound. A mantissa \<open>d.f\<close>
  with one digit before the point and an exponent \<open>-k\<close>, \<open>k > 0\<close>, give \<open>0.\<close> followed by
  \<open>k - 1\<close> zeros and the digits \<open>d f\<close>, as long as these fit into 18 digits. Text with an
  \<open>E\<close> in upper case and no \<open>e\<close> is rejected.
\<close>

theorem scientific_notation_with_lower_case_e:
  "(list_all is_digit m \<and> m \<noteq> [] \<and> list_all is_digit ex \<and> ex \<noteq> []
      \<and> parse_digits ex \<le> MAX_BYTES
      \<and> int (parse_digits m) * 10 ^ parse_digits ex \<le> POSITIVE_INFINITY \<longrightarrow>
    fromString ((if negative then ''-'' else []) @ m @ CHR ''e'' # ex)
      = Inr \<lparr>bn_sign = \<not> negative, bn_value = m @ replicate (parse_digits ex) (CHR ''0''),
             bn_decimal = ''000000000000000000''\<rparr>)
   \<and> (is_digit d \<and> list_all is_digit f \<and> list_all is_digit ex' \<and> 0 < parse_digits ex'
      \<and> parse_digits ex' + length f < PRECISION_BYTES \<longrightarrow>
    fromString (d # CHR ''.'' # f @ ''e-'' @ ex')
      = Inr \<lparr>bn_sign = True, bn_value = ''0'',
             bn_decimal = replicate (parse_digits ex' - 1) (CHR ''0'') @ d # f
               @ replicate (PRECISION_BYTES - (parse_digits ex' + length f)) (CHR ''0'')\<rparr>)
   \<and> (CHR ''E'' \<in> set s \<and> CHR ''e'' \<notin> set s \<longrightarrow> fromString s = Inl Cannot_be_parsed)"
  using fromString_integer_mantissa [of m ex negative]
    fromString_negative_exponent [of d f ex'] upper_case_E_is_rejected [of s]
  by blast

text \<open>
  The amended claim at \<open>2e6\<close>, \<open>1.5e-7\<close> and \<open>2E6\<close>.
\<close>

theorem scientific_notation_with_lower_case_e_witness:
  "fromString ''2e6''
     = Inr \<lparr>bn_sign = True, bn_value = ''2000000'', bn_decimal = ''000000000000000000''\<rparr>
   \<and> fromString ''1.5e-7''
     = Inr \<lparr>bn_sign = True, bn_value = ''0'', bn_decimal = ''000000150000000000''\<rparr>
   \<and> fromString ''2E6'' = Inl Cannot_be_parsed"
proof -
  have a: "list_all is_digit ''2'' \<and> ''2'' \<noteq> [] \<and> list_all is_digit ''6'' \<and> ''6'' \<noteq> []
      \<and> parse_digits ''6'' \<le> MAX_BYTES
      \<and> int (parse_digits ''2'') * 10 ^ parse_digits ''6'' \<le> POSITIVE_INFINITY"
    by (simp add: js_eval)
  have b: "is_digit (CHR ''1'') \<and> list_all is_digit ''5'' \<and> list_all is_digit ''7''
      \<and> 0 < parse_digits ''7'' \<and> parse_digits ''7'' + length ''5'' < PRECISION_BYTES"
    by (simp add: js_eval)
  have c: "CHR ''E'' \<in> set ''2E6'' \<and> CHR ''e'' \<notin> set ''2E6''"
    by simp
  have p: "parse_digits ''6'' = 6" "parse_digits ''7'' = 7"
    by (simp_all add: js_eval)
  show ?thesis
    using a b c
      scientific_notation_with_lower_case_e [of "''2''" "''6''" False "CHR ''1''" "''5''" "''7''" "''2E6''"]
    by (simp add: p PRECISION_BYTES_def replicate_numeral)
qed

text \<open>
  Claim C7 as stated fails at \<open>2E6\<close>, which is rejected, and at \<open>1.5e2\<close>, which is read
  as 1500: the point is removed from the mantissa before the zeros are appended.
\<close>

theorem upper_case_exponent_marker_is_rejected:
  "fromString ''2E6'' = Inl Cannot_be_parsed
   \<and> fromString ''1.5e2''
       = Inr \<lparr>bn_sign = True, bn_value = ''1500'', bn_decimal = ''000000000000000000''\<rparr>"
  by (simp add: bn_eval)

section \<open>Padding of the fraction\<close>

text \<open>
  Claim C8, as amended: a fraction text of fewer than 18 characters is stored with zeros
  appended on the right (\<open>padEnd\<close>), up to 18 characters; so does \<open>fromString\<close> with the
  digits after the point.
\<close>

theorem short_fraction_is_padded_on_the_right:
  "(length decimal < PRECISION_BYTES \<and> new_BigNumber sign val decimal = Inr r \<longrightarrow>
      bn_decimal r = decimal @ replicate (PRECISION_BYTES - length decimal) (CHR ''0'')
      \<and> length (bn_decimal r) = PRECISION_BYTES)
   \<and> (list_all is_digit i \<and> i \<noteq> [] \<and> list_all is_digit f \<and> length f < PRECISION_BYTES
       \<and> int (parse_digits i) < POSITIVE_INFINITY \<longrightarrow>
      fromString (i @ CHR ''.'' # f)
      = Inr \<lparr>bn_sign = True, bn_value = i,
             bn_decimal = f @ replicate (PRECISION_BYTES - length f) (CHR ''0'')\<rparr>
      \<and> toString \<lparr>bn_sign = True, bn_value = i,
             bn_decimal = f @ replicate (PRECISION_BYTES - length f) (CHR ''0'')\<rparr>
        = i @ ''.'' @ f @ replicate (PRECISION_BYTES - length f) (CHR ''0''))"
proof -
  have "bn_decimal r = decimal @ replicate (PRECISION_BYTES - length decimal) (CHR ''0'')
      \<and> length (bn_decimal r) = PRECISION_BYTES"
    if "length decimal < PRECISION_BYTES" and "new_BigNumber sign val decimal = Inr r"
    using that
    by (auto simp: new_BigNumber_def padEnd_def split: if_splits option.splits)
  then show ?thesis
    using fromString_digits_point_digits [of i f] by (simp add: toString_def)
qed

text \<open>
  The amended claim at the fraction text \<open>5\<close> and at \<open>0.5\<close>.
\<close>

theorem short_fraction_is_padded_on_the_right_witness:
  "length ''5'' < PRECISION_BYTES
   \<and> new_BigNumber True ''0'' ''5''
       = Inr \<lparr>bn_sign = True, bn_value = ''0'', bn_decimal = ''500000000000000000''\<rparr>
   \<and> bn_decimal \<lparr>bn_sign = True, bn_value = ''0'', bn_decimal = ''500000000000000000''\<rparr>
       = ''5'' @ replicate (PRECISION_BYTES - length ''5'') (CHR ''0'')
   \<and> fromString ''0.5''
       = Inr \<lparr>bn_sign = True, bn_value = ''0'', bn_decimal = ''500000000000000000''\<rparr>
   \<and> toString \<lparr>bn_sign = True, bn_value = ''0'', bn_decimal = ''500000000000000000''\<rparr>
       = ''0.500000000000000000''"
proof -
  have l: "length ''5'' < PRECISION_BYTES"
    by (simp add: PRECISION_BYTES_def)
  have n: "new_BigNumber True ''0'' ''5''
       = Inr \<lparr>bn_sign = True, bn_value = ''0'', bn_decimal = ''500000000000000000''\<rparr>"
    by (simp add: bn_eval)
  have d: "list_all is_digit ''0'' \<and> ''0'' \<noteq> [] \<and> list_all is_digit ''5''
      \<and> int (parse_digits ''0'') < POSITIVE_INFINITY"
    by (simp add: js_eval)
  have p: "''5'' @ replicate (PRECISION_BYTES - length ''5'') (CHR ''0'') = ''500000000000000000''"
    by (simp add: PRECISION_BYTES_def replicate_numeral)
  show ?thesis
    using l n d p
      short_fraction_is_padded_on_the_right [of "''5''" True "''0''"
        "\<lparr>bn_sign = True, bn_value = ''0'', bn_decimal = ''500000000000000000''\<rparr>" "''0''" "''5''"]
    by simp
qed

text \<open>
  Claim C8 as stated fails at \<open>0.5\<close>: the fraction field is \<open>500000000000000000\<close> and
  the text \<open>0.500000000000000000\<close>.
\<close>

theorem fromString_half_pads_on_the_right:
  "fromString ''0.5''
     = Inr \<lparr>bn_sign = True, bn_value = ''0'', bn_decimal = ''500000000000000000''\<rparr>
   \<and> toString \<lparr>bn_sign = True, bn_value = ''0'', bn_decimal = ''500000000000000000''\<rparr>
       = ''0.500000000000000000''"
  by (simp add: bn_eval)

section \<open>The bound\<close>

text \<open>
  Claim C9: on digit strings, the constructor accepts the magnitude \<open>10^36\<close> with a
  fraction of value zero, and throws the error of the upper bound, a RangeError of the
  specification, for \<open>10^36\<close> with any other fraction and for every larger magnitude,
  whatever the sign; \<open>fromBigInt\<close> accepts both \<open>10^36\<close> and \<open>-10^36\<close> and throws beyond
  them.
\<close>

theorem bound_clamp:
  assumes "list_all is_digit val" and "list_all is_digit decimal"
  shows "(int (parse_digits val) = POSITIVE_INFINITY \<and> parse_digits decimal = 0 \<longrightarrow>
            new_BigNumber sign val decimal
            = Inr \<lparr>bn_sign = sign, bn_value = val, bn_decimal = ''000000000000000000''\<rparr>)
       \<and> (int (parse_digits val) = POSITIVE_INFINITY \<and> parse_digits decimal \<noteq> 0 \<longrightarrow>
            new_BigNumber sign val decimal = Inl Bigger_than_POSITIVE_INFINITY)
       \<and> (int (parse_digits val) > POSITIVE_INFINITY \<longrightarrow>
            new_BigNumber sign val decimal = Inl Bigger_than_POSITIVE_INFINITY)
       \<and> (\<bar>n\<bar> = POSITIVE_INFINITY \<longrightarrow>
            fromBigInt n
            = Inr \<lparr>bn_sign = n \<ge> 0, bn_value = ''1000000000000000000000000000000000000'',
                   bn_decimal = ''000000000000000000''\<rparr>)
       \<and> (\<bar>n\<bar> > POSITIVE_INFINITY \<longrightarrow> fromBigInt n = Inl Bigger_than_POSITIVE_INFINITY)
       \<and> RangeError Bigger_than_POSITIVE_INFINITY"
proof -
  have "digits_of (nat POSITIVE_INFINITY) = ''1000000000000000000000000000000000000''"
    by (simp add: js_eval)
  then have "\<bar>n\<bar> = POSITIVE_INFINITY \<Longrightarrow> fromBigInt n
            = Inr \<lparr>bn_sign = n \<ge> 0, bn_value = ''1000000000000000000000000000000000000'',
                   bn_decimal = ''000000000000000000''\<rparr>"
    using fromBigInt_within [of n] by simp
  then show ?thesis
    using assms new_BigNumber_zero_fraction [of val decimal sign]
      new_BigNumber_too_big [of val decimal sign] fromBigInt_beyond [of n]
    by (simp add: zeros18 RangeError_def)
qed

text \<open>
  The claim at \<open>-10^36\<close>, at \<open>10^36\<close> with the fraction text \<open>000000000000000001\<close>, and
  one step beyond the bound.
\<close>

theorem bound_clamp_witness:
  "list_all is_digit ''1000000000000000000000000000000000000''
   \<and> int (parse_digits ''1000000000000000000000000000000000000'') = POSITIVE_INFINITY
   \<and> new_BigNumber False ''1000000000000000000000000000000000000'' ''0''
       = Inr \<lparr>bn_sign = False, bn_value = ''1000000000000000000000000000000000000'',
              bn_decimal = ''000000000000000000''\<rparr>
   \<and> new_BigNumber True ''1000000000000000000000000000000000000'' ''000000000000000001''
       = Inl Bigger_than_POSITIVE_INFINITY
   \<and> new_BigNumber False ''1000000000000000000000000000000000001'' ''0''
       = Inl Bigger_than_POSITIVE_INFINITY
   \<and> fromBigInt (- POSITIVE_INFINITY)
       = Inr \<lparr>bn_sign = False, bn_value = ''1000000000000000000000000000000000000'',
              bn_decimal = ''000000000000000000''\<rparr>
   \<and> fromBigInt (POSITIVE_INFINITY + 1) = Inl Bigger_than_POSITIVE_INFINITY"
proof -
  have d: "list_all is_digit ''1000000000000000000000000000000000000''"
    "list_all is_digit ''1000000000000000000000000000000000001''"
    "list_all is_digit ''0''" "list_all is_digit ''000000000000000001''"
    by (simp_all add: is_digit_def)
  have p: "int (parse_digits ''1000000000000000000000000000000000000'') = POSITIVE_INFINITY"
    "int (parse_digits ''1000000000000000000000000000000000001'') > POSITIVE_INFINITY"
    "parse_digits ''0'' = 0" "parse_digits ''000000000000000001'' \<noteq> 0"
    by (simp_all add: js_eval)
  have n: "\<bar>- POSITIVE_INFINITY\<bar> = POSITIVE_INFINITY" "\<bar>POSITIVE_INFINITY + 1\<bar> > POSITIVE_INFINITY"
    "\<not> (0 \<le> - POSITIVE_INFINITY)"
    by (simp_all add: POSITIVE_INFINITY_def MAX_BYTES_def)
  have 1: "new_BigNumber False ''1000000000000000000000000000000000000'' ''0''
       = Inr \<lparr>bn_sign = False, bn_value = ''1000000000000000000000000000000000000'',
              bn_decimal = ''000000000000000000''\<rparr>"
    and 2: "fromBigInt (- POSITIVE_INFINITY)
       = Inr \<lparr>bn_sign = False, bn_value = ''1000000000000000000000000000000000000'',
              bn_decimal = ''000000000000000000''\<rparr>"
    using bound_clamp [OF d(1) d(3), of False "- POSITIVE_INFINITY"] p(1,3) n(1,3) by simp_all
  have 3: "new_BigNumber True ''1000000000000000000000000000000000000'' ''000000000000000001''
       = Inl Bigger_than_POSITIVE_INFINITY"
    and 4: "fromBigInt (POSITIVE_INFINITY + 1) = Inl Bigger_than_POSITIVE_INFINITY"
    using bound_clamp [OF d(1) d(4), of True "POSITIVE_INFINITY + 1"] p(1,4) n(2) by simp_all
  have 5: "new_BigNumber False ''1000000000000000000000000000000000001'' ''0''
       = Inl Bigger_than_POSITIVE_INFINITY"
    using bound_clamp [OF d(2) d(3), of False 0] p(2) by simp
  show ?thesis
    using d(1) p(1) 1 2 3 4 5 by simp
qed

section \<open>Text without digits\<close>

text \<open>
  Claim C10: \<open>fromString(".")\<close> raises no error. It returns a value with the empty integer
  text, printed as \<open>.000000000000000000\<close>, and \<open>equals\<close> tells it from \<open>fromBigInt(0n)\<close>.
\<close>

theorem fromString_point_is_accepted:
  "fromString ''.'' = Inr \<lparr>bn_sign = True, bn_value = [], bn_decimal = ''000000000000000000''\<rparr>
   \<and> toString \<lparr>bn_sign = True, bn_value = [], bn_decimal = ''000000000000000000''\<rparr>
       = ''.000000000000000000''
   \<and> fromBigInt 0 = Inr \<lparr>bn_sign = True, bn_value = ''0'', bn_decimal = ''000000000000000000''\<rparr>
   \<and> \<not> equals \<lparr>bn_sign = True, bn_value = [], bn_decimal = ''000000000000000000''\<rparr>
               \<lparr>bn_sign = True, bn_value = ''0'', bn_decimal = ''000000000000000000''\<rparr>"
  by (simp add: bn_eval)

end
